theory Spec2Isabelle
  imports
    Main
    "HOL-Library.Char_ord"
    "HOL-Library.List_Lexorder"
    "HOL-Library.Sublist"
    "HOL-Library.Log_Nat"
begin

section \<open>Feature extraction (hloc/extract\_features.py)\<close>

text \<open>
  A shallow embedding of \<^verbatim>\<open>hloc/extract_features.py\<close>: the class \<^verbatim>\<open>ImageDataset\<close>
  (path resolution in \<^verbatim>\<open>__init__\<close>, reading and resizing in \<^verbatim>\<open>__getitem__\<close>) and the
  function \<^verbatim>\<open>main\<close> (skip check, inference loop, rescaling of keypoints, downcast,
  appending to the HDF5 feature file).

  What the file takes from elsewhere is a parameter of the model: the file system
  (\<^verbatim>\<open>Path.glob\<close>, \<^verbatim>\<open>Path.exists\<close>, \<^verbatim>\<open>parse_image_lists\<close>, \<^verbatim>\<open>read_image\<close>) is the
  record \<open>filesystem\<close>, the extractor that \<^verbatim>\<open>dynamic_load\<close> returns is a function from
  a loaded item to a result or an error. What \<^verbatim>\<open>main\<close> changes (directories, HDF5
  files) is the record \<open>world\<close>, which also keeps a log of the backend's loading and
  of every inference call.
\<close>

subsection \<open>Errors\<close>

datatype error =
    NoImageFound              \<comment> \<open>\<^verbatim>\<open>ValueError('Could not find any image in root')\<close>, line 107\<close>
  | UnknownPathFormat         \<comment> \<open>\<^verbatim>\<open>ValueError('Unknown format for path argument')\<close>, line 118\<close>
  | ImageMissing string       \<comment> \<open>\<^verbatim>\<open>ValueError('Image ... does not exists in root')\<close>, line 123\<close>
  | ListFileError             \<comment> \<open>\<^verbatim>\<open>parse_image_lists\<close> raised\<close>
  | IndexError                \<comment> \<open>\<^verbatim>\<open>self.names[idx]\<close> out of range\<close>
  | CannotReadImage string    \<comment> \<open>\<^verbatim>\<open>read_image\<close> raised\<close>
  | ZeroDivisionError         \<comment> \<open>\<^verbatim>\<open>resize_max / max(h, w)\<close> on an empty image\<close>
  | ResizeError               \<comment> \<open>\<^verbatim>\<open>cv2.resize\<close> asked for an empty image\<close>
  | NoExportDir               \<comment> \<open>\<^verbatim>\<open>Path(None, ...)\<close>: neither export\_dir nor feature\_path\<close>
  | BackendLoadError          \<comment> \<open>\<^verbatim>\<open>dynamic_load\<close> or the model's constructor raised\<close>
  | BackendError              \<comment> \<open>the model's forward pass raised\<close>
  | BroadcastError            \<comment> \<open>numpy: operands could not be broadcast together\<close>
  | GroupExists string        \<comment> \<open>h5py \<^verbatim>\<open>create_group\<close>: the name already exists in the file\<close>

subsection \<open>Paths\<close>

text \<open>
  A \<^verbatim>\<open>pathlib.Path\<close> is its tuple of parts; the first part of an absolute path is its
  root, \<^verbatim>\<open>/\<close> or \<^verbatim>\<open>//\<close>. Paths are compared part by part, each part as a string (by
  code point), which is the lexicographic order on lists of strings.
\<close>

type_synonym path = "string list"

fun join_posix :: "string list \<Rightarrow> string" where
  "join_posix [] = []"
| "join_posix [c] = c"
| "join_posix (c # d # cs) = c @ CHR ''/'' # join_posix (d # cs)"

definition as_posix :: "path \<Rightarrow> string" where
  \<comment> \<open>the root part is followed by the other parts without a separator\<close>
  "as_posix p =
     (case p of
        [] \<Rightarrow> ''.''
      | r # rest \<Rightarrow> if r = ''/'' \<or> r = ''//'' then r @ join_posix rest else join_posix p)"

fun split_slash :: "string \<Rightarrow> string list" where
  "split_slash [] = [[]]"
| "split_slash (c # cs) =
     (if c = CHR ''/'' then [] # split_slash cs
      else (case split_slash cs of [] \<Rightarrow> [[c]] | w # ws \<Rightarrow> (c # w) # ws))"

definition path_parts :: "string \<Rightarrow> path" where
  \<comment> \<open>the parts of a relative path string: empty parts and \<^verbatim>\<open>.\<close> are dropped\<close>
  "path_parts s = filter (\<lambda>c. c \<noteq> [] \<and> c \<noteq> ''.'') (split_slash s)"

definition path_root :: "string \<Rightarrow> string" where
  \<comment> \<open>the root of an absolute path string: exactly two leading slashes are kept\<close>
  "path_root s = (if take 2 s = ''//'' \<and> take 3 s \<noteq> ''///'' then ''//'' else ''/'')"

definition path_join :: "path \<Rightarrow> string \<Rightarrow> path" where
  \<comment> \<open>\<^verbatim>\<open>Path(a, s)\<close>: an absolute \<open>s\<close> replaces \<open>a\<close>\<close>
  "path_join a s =
     (case s of
        [] \<Rightarrow> a
      | c # cs \<Rightarrow> if c = CHR ''/'' then path_root s # path_parts s else a @ path_parts s)"

definition parent :: "path \<Rightarrow> path" where
  \<comment> \<open>the parent of a root and of the empty path is the path itself\<close>
  "parent p = (if p = [] \<or> p = [''/''] \<or> p = [''//''] then p else butlast p)"

definition valid_part :: "string \<Rightarrow> bool" where
  \<comment> \<open>a part of a relative path: not empty, no separator inside\<close>
  "valid_part c = (c \<noteq> [] \<and> CHR ''/'' \<notin> set c)"

definition valid_rel_path :: "path \<Rightarrow> bool" where
  "valid_rel_path p = (p \<noteq> [] \<and> list_all valid_part p)"

subsection \<open>The file system the dataset reads\<close>

record filesystem =
  glob :: "path \<Rightarrow> string \<Rightarrow> path list"
    \<comment> \<open>\<^verbatim>\<open>Path(root).glob(pattern)\<close>: the matches, relative to root, in the order the OS gives\<close>
  exists_in :: "path \<Rightarrow> string \<Rightarrow> bool"
    \<comment> \<open>\<^verbatim>\<open>(root / name).exists()\<close>\<close>
  parse_image_lists :: "path \<Rightarrow> error + string list"
    \<comment> \<open>the names listed in a list file\<close>
  read_image :: "path \<Rightarrow> string \<Rightarrow> bool \<Rightarrow> (nat \<times> nat) option"
    \<comment> \<open>\<^verbatim>\<open>read_image(root / name, grayscale)\<close>: (height, width) of the decoded image,
        \<open>None\<close> when it raises\<close>

subsection \<open>Preprocessing configuration\<close>

record conf_dict =
  globs_in :: "string list option"
  grayscale_in :: "bool option"
  resize_max_in :: "int option option"
  resize_force_in :: "bool option"

record prep_conf =
  globs :: "string list"
  grayscale :: bool
  resize_max :: "int option"
  resize_force :: bool

definition default_conf :: prep_conf where
  "default_conf =
     \<lparr>globs = [''*.jpg'', ''*.png'', ''*.jpeg'', ''*.JPG'', ''*.PNG''],
      grayscale = False, resize_max = None, resize_force = False\<rparr>"

definition merge_conf :: "prep_conf \<Rightarrow> conf_dict \<Rightarrow> prep_conf" where
  \<comment> \<open>\<^verbatim>\<open>{**default_conf, **conf}\<close>: a key of \<open>conf\<close> wins\<close>
  "merge_conf d c =
     \<lparr>globs = (case globs_in c of None \<Rightarrow> globs d | Some g \<Rightarrow> g),
      grayscale = (case grayscale_in c of None \<Rightarrow> grayscale d | Some g \<Rightarrow> g),
      resize_max = (case resize_max_in c of None \<Rightarrow> resize_max d | Some r \<Rightarrow> r),
      resize_force = (case resize_force_in c of None \<Rightarrow> resize_force d | Some f \<Rightarrow> f)\<rparr>"

subsection \<open>ImageDataset.\_\_init\_\_: path resolution\<close>

datatype path_entry = PathObj path | Str string

datatype paths_arg =
    PathsNone                 \<comment> \<open>\<^verbatim>\<open>paths is None\<close>: glob discovery\<close>
  | ListFile path             \<comment> \<open>a \<^verbatim>\<open>Path\<close> or \<^verbatim>\<open>str\<close>: the name of a list file\<close>
  | Entries "path_entry list" \<comment> \<open>any other iterable, of \<^verbatim>\<open>Path\<close> and \<^verbatim>\<open>str\<close>\<close>
  | Unrecognised              \<comment> \<open>anything else\<close>

record dataset =
  ds_conf :: prep_conf
  ds_root :: path
  names :: "string list"

fun entry_name :: "path_entry \<Rightarrow> string" where
  "entry_name (PathObj p) = as_posix p"
| "entry_name (Str s) = s"

fun first_missing :: "filesystem \<Rightarrow> path \<Rightarrow> string list \<Rightarrow> string option" where
  "first_missing fs rootdir [] = None"
| "first_missing fs rootdir (name # rest) =
     (if \<not> exists_in fs rootdir name then Some name else first_missing fs rootdir rest)"

definition glob_paths :: "filesystem \<Rightarrow> path \<Rightarrow> string list \<Rightarrow> path list" where
  "glob_paths fs rootdir gs = concat (map (\<lambda>g. glob fs rootdir (''**/'' @ g)) gs)"

definition checked_names ::
  "filesystem \<Rightarrow> prep_conf \<Rightarrow> path \<Rightarrow> string list \<Rightarrow> error + dataset" where
  "checked_names fs conf rootdir ns =
     (case first_missing fs rootdir ns of
        Some name \<Rightarrow> Inl (ImageMissing name)
      | None \<Rightarrow> Inr \<lparr>ds_conf = conf, ds_root = rootdir, names = ns\<rparr>)"

definition ImageDataset_init ::
  "filesystem \<Rightarrow> path \<Rightarrow> conf_dict \<Rightarrow> paths_arg \<Rightarrow> error + dataset" where
  "ImageDataset_init fs rootdir c paths =
     (let conf = merge_conf default_conf c in
      case paths of
        PathsNone \<Rightarrow>
          (let found = glob_paths fs rootdir (globs conf) in
           if length found = 0 then Inl NoImageFound
           else Inr \<lparr>ds_conf = conf, ds_root = rootdir,
                     names = map as_posix (sort (remdups found))\<rparr>)
      | ListFile f \<Rightarrow>
          (case parse_image_lists fs f of
             Inl e \<Rightarrow> Inl e
           | Inr ns \<Rightarrow> checked_names fs conf rootdir ns)
      | Entries es \<Rightarrow> checked_names fs conf rootdir (map entry_name es)
      | Unrecognised \<Rightarrow> Inl UnknownPathFormat)"

subsection \<open>Floating point\<close>

text \<open>
  A finite floating-point number is the rational it denotes. \<open>round_to p emin\<close> rounds a
  rational to the nearest number with a significand of \<open>p\<close> bits and a quantum of at
  least \<open>2 powi emin\<close>, ties to even: the rounding of IEEE 754 arithmetic before the
  result is compared with the largest finite number of the format. That comparison, and
  the infinities and NaN of array elements, are in the section on arrays.
\<close>

definition rne :: "rat \<Rightarrow> int" where
  \<comment> \<open>round to the nearest integer, ties to even: Python's \<^verbatim>\<open>round\<close>\<close>
  "rne x =
     (let f = \<lfloor>x\<rfloor>; d = x - of_int f
      in if d < 1 / 2 then f else if 1 / 2 < d then f + 1
         else if even f then f else f + 1)"

definition ilog2 :: "rat \<Rightarrow> int" where
  \<comment> \<open>for \<open>0 < x\<close>: the \<open>e\<close> with \<open>2 powi e \<le> x < 2 powi (e + 1)\<close>\<close>
  "ilog2 x =
     (let (a, b) = quotient_of x;
          e = bitlen a - bitlen b
      in if 2 powi e \<le> x then e else e - 1)"

definition round_to :: "nat \<Rightarrow> int \<Rightarrow> rat \<Rightarrow> rat" where
  "round_to p emin x =
     (if x = 0 then 0
      else let q = max (ilog2 \<bar>x\<bar> - (int p - 1)) emin
           in of_int (rne (x / 2 powi q)) * 2 powi q)"

definition f16 :: "rat \<Rightarrow> rat" where "f16 = round_to 11 (- 24)"
definition f32 :: "rat \<Rightarrow> rat" where "f32 = round_to 24 (- 149)"
definition f64 :: "rat \<Rightarrow> rat" where "f64 = round_to 53 (- 1074)"

subsection \<open>ImageDataset.\_\_getitem\_\_: reading and resizing\<close>

text \<open>
  An image is its height, its width and its pixels. The pixels are a term that records
  where they come from: the claims are about sizes and about whether \<^verbatim>\<open>cv2.resize\<close> ran,
  never about pixel values (the cast to float32, the channel-first layout and the
  division by 255 change neither).
\<close>

datatype pixels =
    Decoded string bool        \<comment> \<open>\<^verbatim>\<open>read_image(root / name, grayscale)\<close>\<close>
  | Resized pixels nat nat     \<comment> \<open>\<^verbatim>\<open>cv2.resize(image, (w_new, h_new), INTER_LINEAR)\<close>\<close>

record image =
  img_h :: nat
  img_w :: nat
  pix :: pixels

record data =
  d_name :: string
  d_image :: image
  original_size :: "nat \<times> nat"   \<comment> \<open>(width, height)\<close>

definition resize_scale :: "int \<Rightarrow> nat \<Rightarrow> nat \<Rightarrow> rat" where
  \<comment> \<open>\<^verbatim>\<open>resize_max / max(h, w)\<close>, a Python float\<close>
  "resize_scale r h w = f64 (of_int r / of_nat (max h w))"

definition new_dim :: "int \<Rightarrow> nat \<Rightarrow> nat \<Rightarrow> nat \<Rightarrow> int" where
  \<comment> \<open>\<^verbatim>\<open>int(round(x*scale))\<close> for a side \<open>x\<close> of an image of height \<open>h\<close>, width \<open>w\<close>\<close>
  "new_dim r h w x = rne (f64 (of_nat x * resize_scale r h w))"

definition resize_image :: "prep_conf \<Rightarrow> image \<Rightarrow> error + image" where
  "resize_image conf im =
     (let w = img_w im; h = img_h im in
      case resize_max conf of
        None \<Rightarrow> Inr im
      | Some r \<Rightarrow>
          if r \<noteq> 0 \<and> (resize_force conf \<or> r < int (max w h)) then
            if max h w = 0 then Inl ZeroDivisionError
            else
              let h_new = new_dim r h w h; w_new = new_dim r h w w
              in if w_new \<le> 0 \<or> h_new \<le> 0 then Inl ResizeError
                 else Inr \<lparr>img_h = nat h_new, img_w = nat w_new,
                           pix = Resized (pix im) (nat w_new) (nat h_new)\<rparr>
          else Inr im)"

definition load_image :: "filesystem \<Rightarrow> dataset \<Rightarrow> string \<Rightarrow> error + data" where
  "load_image fs ds name =
     (case read_image fs (ds_root ds) name (grayscale (ds_conf ds)) of
        None \<Rightarrow> Inl (CannotReadImage name)
      | Some (h, w) \<Rightarrow>
          (case resize_image (ds_conf ds)
                  \<lparr>img_h = h, img_w = w, pix = Decoded name (grayscale (ds_conf ds))\<rparr> of
             Inl e \<Rightarrow> Inl e
           | Inr im \<Rightarrow> Inr \<lparr>d_name = name, d_image = im, original_size = (w, h)\<rparr>))"

definition getitem :: "filesystem \<Rightarrow> dataset \<Rightarrow> nat \<Rightarrow> error + data" where
  "getitem fs ds idx =
     (if length (names ds) \<le> idx then Inl IndexError
      else load_image fs ds (names ds ! idx))"

definition loader :: "filesystem \<Rightarrow> dataset \<Rightarrow> (error + data) list" where
  \<comment> \<open>what iterating over the \<^verbatim>\<open>DataLoader\<close> yields: the items in index order\<close>
  "loader fs ds = map (getitem fs ds) [0 ..< length (names ds)]"

subsection \<open>Arrays\<close>

text \<open>
  An element of an array is a finite number, an infinity or NaN. The two zeros of a
  floating-point format are one number here: no operation of the source tells them apart.
\<close>

datatype fval = Num rat | PosInf | NegInf | NaN

datatype dtype = Float16 | Float32 | Float64 | Int32 | Int64

record ndarray =
  dtype :: dtype
  shape :: "nat list"
  vals :: "fval list"     \<comment> \<open>the elements, in row-major order\<close>

type_synonym pred = "string \<rightharpoonup> ndarray"

definition finite_or_inf :: "rat \<Rightarrow> rat \<Rightarrow> fval" where
  \<comment> \<open>a rounded result beyond the largest finite number \<open>m\<close> of the format is an infinity\<close>
  "finite_or_inf m y = (if m < y then PosInf else if y < - m then NegInf else Num y)"

fun fl :: "dtype \<Rightarrow> fval \<Rightarrow> fval" where
  \<comment> \<open>the value as an element of a float dtype; the source casts to float dtypes only, and
      the last equation keeps infinities and NaN (and every value for an integer dtype)\<close>
  "fl Float16 (Num x) = finite_or_inf 65504 (f16 x)"
| "fl Float32 (Num x) = finite_or_inf ((2 ^ 24 - 1) * 2 ^ 104) (f32 x)"
| "fl Float64 (Num x) = finite_or_inf ((2 ^ 53 - 1) * 2 ^ 971) (f64 x)"
| "fl dt v = v"

definition astype :: "dtype \<Rightarrow> ndarray \<Rightarrow> ndarray" where
  "astype dt a = a\<lparr>dtype := dt, vals := map (fl dt) (vals a)\<rparr>"

fun with_float :: "dtype \<Rightarrow> dtype" where
  \<comment> \<open>the dtype of \<^verbatim>\<open>array + 0.5\<close>\<close>
  "with_float Float16 = Float16"
| "with_float Float32 = Float32"
| "with_float dt = Float64"

fun with_float32 :: "dtype \<Rightarrow> dtype" where
  \<comment> \<open>the dtype of \<^verbatim>\<open>array * float32_array\<close>\<close>
  "with_float32 Float16 = Float32"
| "with_float32 Float32 = Float32"
| "with_float32 dt = Float64"

fun add_const :: "rat \<Rightarrow> fval \<Rightarrow> fval" where
  \<comment> \<open>the exact sum with a finite constant\<close>
  "add_const c (Num x) = Num (x + c)"
| "add_const c v = v"

fun sign_of :: "fval \<Rightarrow> int" where
  "sign_of (Num x) = (if x = 0 then 0 else if 0 < x then 1 else - 1)"
| "sign_of PosInf = 1"
| "sign_of NegInf = - 1"
| "sign_of NaN = 0"

fun fmul :: "fval \<Rightarrow> fval \<Rightarrow> fval" where
  \<comment> \<open>the exact product: an infinity times zero is NaN\<close>
  "fmul (Num x) (Num y) = Num (x * y)"
| "fmul NaN v = NaN"
| "fmul v NaN = NaN"
| "fmul u v =
     (let s = sign_of u * sign_of v
      in if s = 0 then NaN else if 0 < s then PosInf else NegInf)"

definition add_elem :: "dtype \<Rightarrow> rat \<Rightarrow> fval \<Rightarrow> fval" where
  \<comment> \<open>one element of \<^verbatim>\<open>array + c\<close> in the arithmetic of the float dtype \<open>dt\<close>\<close>
  "add_elem dt c v = fl dt (add_const c (fl dt v))"

definition mul_elem :: "dtype \<Rightarrow> fval \<Rightarrow> fval \<Rightarrow> fval" where
  \<comment> \<open>one element of \<^verbatim>\<open>array * s\<close> in the arithmetic of the float dtype \<open>dt\<close>, for a
      float32 number \<open>s\<close>\<close>
  "mul_elem dt s v = fl dt (fmul (fl dt v) s)"

definition add_scalar :: "rat \<Rightarrow> ndarray \<Rightarrow> ndarray" where
  \<comment> \<open>\<^verbatim>\<open>array + c\<close> for a Python float \<open>c\<close>\<close>
  "add_scalar c a =
     (let dt = with_float (dtype a)
      in a\<lparr>dtype := dt, vals := map (add_elem dt c) (vals a)\<rparr>)"

fun per_axis :: "('a \<Rightarrow> 'b) \<Rightarrow> ('a \<Rightarrow> 'b) \<Rightarrow> 'a list \<Rightarrow> 'b list" where
  "per_axis fx fy (x # y # rest) = fx x # fy y # per_axis fx fy rest"
| "per_axis fx fy [x] = [fx x]"
| "per_axis fx fy [] = []"

definition mul_scales :: "ndarray \<Rightarrow> fval \<times> fval \<Rightarrow> error + ndarray" where
  \<comment> \<open>\<^verbatim>\<open>array * scales[None]\<close> for a float32 array \<open>scales\<close> of shape (2,)\<close>
  "mul_scales a s =
     (let dt = with_float32 (dtype a);
          lead = (if length (shape a) \<le> 1 then [1] else butlast (shape a))
      in if shape a = [] \<or> last (shape a) = 1 then
           Inr \<lparr>dtype = dt, shape = lead @ [2],
                vals = concat (map (\<lambda>v. [mul_elem dt (fst s) v, mul_elem dt (snd s) v]) (vals a))\<rparr>
         else if last (shape a) = 2 then
           Inr \<lparr>dtype = dt, shape = lead @ [2],
                vals = per_axis (mul_elem dt (fst s)) (mul_elem dt (snd s)) (vals a)\<rparr>
         else Inl BroadcastError)"

subsection \<open>main: postprocessing of one result\<close>

definition size_ratio :: "nat \<Rightarrow> nat \<Rightarrow> fval" where
  \<comment> \<open>one element of \<^verbatim>\<open>original_size / size\<close>, two int64 arrays: both are converted to
      float64 and divided there; numpy divides by zero without raising\<close>
  "size_ratio a b =
     (if b = 0 then (if a = 0 then NaN else PosInf)
      else fl Float64 (Num (f64 (of_nat a) / f64 (of_nat b))))"

definition scales_of :: "data \<Rightarrow> fval \<times> fval" where
  \<comment> \<open>\<^verbatim>\<open>(original_size / size).astype(np.float32)\<close>, \<open>size\<close> the (width, height) of the
      tensor given to the model\<close>
  "scales_of d =
     (fl Float32 (size_ratio (fst (original_size d)) (img_w (d_image d))),
      fl Float32 (size_ratio (snd (original_size d)) (img_h (d_image d))))"

definition image_size_array :: "data \<Rightarrow> ndarray" where
  "image_size_array d =
     \<lparr>dtype = Int64, shape = [2],
      vals = [Num (of_nat (fst (original_size d))), Num (of_nat (snd (original_size d)))]\<rparr>"

definition rescale_keypoints :: "data \<Rightarrow> pred \<Rightarrow> error + pred" where
  "rescale_keypoints d p =
     (case p ''keypoints'' of
        None \<Rightarrow> Inr p
      | Some kp \<Rightarrow>
          (case mul_scales (add_scalar (1 / 2) kp) (scales_of d) of
             Inl e \<Rightarrow> Inl e
           | Inr m \<Rightarrow> Inr (p(''keypoints'' \<mapsto> add_scalar (- (1 / 2)) m))))"

definition half_field :: "ndarray \<Rightarrow> ndarray" where
  "half_field a =
     (if dtype a = Float32 \<and> dtype a \<noteq> Float16 then astype Float16 a else a)"

definition downcast :: "bool \<Rightarrow> pred \<Rightarrow> pred" where
  "downcast as_half p = (if as_half then (\<lambda>k. map_option half_field (p k)) else p)"

definition postprocess :: "bool \<Rightarrow> data \<Rightarrow> pred \<Rightarrow> error + pred" where
  "postprocess as_half d p0 =
     (case rescale_keypoints d (p0(''image_size'' \<mapsto> image_size_array d)) of
        Inl e \<Rightarrow> Inl e
      | Inr p \<Rightarrow> Inr (downcast as_half p))"

definition rescaled_coord :: "dtype \<Rightarrow> fval \<Rightarrow> fval \<Rightarrow> fval" where
  \<comment> \<open>line 190 for one coordinate \<open>k\<close> of an array of dtype \<open>dt\<close> and the scale \<open>s\<close> of its
      axis: \<^verbatim>\<open>(k + .5) * s - .5\<close>, every operation in the dtype of its result\<close>
  "rescaled_coord dt s k =
     (let dt1 = with_float dt; dt2 = with_float32 dt1
      in add_elem dt2 (- (1 / 2)) (mul_elem dt2 s (add_elem dt1 (1 / 2) k)))"

subsection \<open>main: the feature file and the loop\<close>

text \<open>
  An HDF5 file is the list of the groups that \<^verbatim>\<open>create_group\<close> made in it, in the order
  of their creation, each with its path in the file and its datasets (the fields of one
  result; a field name is one link name). A name given to \<^verbatim>\<open>create_group\<close> is a path in
  the file: it is cut at the slashes, and empty components and \<^verbatim>\<open>.\<close> are dropped, so
  that \<^verbatim>\<open>./b.png\<close> and \<^verbatim>\<open>b.png\<close> name the same group. The groups on the way to a path are
  made with it.
\<close>

type_synonym h5path = "string list"

type_synonym h5file = "(h5path \<times> pred) list"

datatype event = LoadBackend | Infer string

record world =
  dirs :: "path set"
  h5_files :: "path \<rightharpoonup> h5file"
  events :: "event list"

type_synonym backend = "data \<Rightarrow> error + pred"

record conf =
  conf_output :: string
  model_name :: string
  preprocessing :: conf_dict

definition h5_path :: "string \<Rightarrow> h5path" where
  "h5_path name = filter (\<lambda>c. c \<noteq> [] \<and> c \<noteq> ''.'') (split_slash name)"

definition store_at :: "world \<Rightarrow> path \<Rightarrow> h5file" where
  "store_at w p = (case h5_files w p of None \<Rightarrow> [] | Some f \<Rightarrow> f)"

definition group_names :: "h5file \<Rightarrow> string set" where
  \<comment> \<open>the name of a group is its path, the components joined by slashes\<close>
  "group_names f = set (map (\<lambda>(q, g). join_posix q) f)"

definition list_h5_names :: "world \<Rightarrow> path \<Rightarrow> string set" where
  \<comment> \<open>Modelled from the spec: \<^verbatim>\<open>list_h5_names\<close> (hloc/utils/io.py, not among the sources)
      enumerates the group names currently persisted in the feature file.\<close>
  "list_h5_names w p = group_names (store_at w p)"

definition path_exists :: "world \<Rightarrow> path \<Rightarrow> bool" where
  "path_exists w p = (h5_files w p \<noteq> None)"

definition mkdir_parents :: "path \<Rightarrow> world \<Rightarrow> world" where
  \<comment> \<open>\<^verbatim>\<open>d.mkdir(exist_ok=True, parents=True)\<close>\<close>
  "mkdir_parents d w = w\<lparr>dirs := dirs w \<union> set (prefixes d)\<rparr>"

definition h5_blocked :: "h5file \<Rightarrow> h5path \<Rightarrow> bool" where
  \<comment> \<open>\<^verbatim>\<open>create_group\<close> raises for the root, for a group that exists (a group of the list
      or a group on the way to one) and for a path that runs into a dataset\<close>
  "h5_blocked f p =
     (p = [] \<or>
      list_ex (\<lambda>(q, g). prefix p q \<or> (strict_prefix q p \<and> g (p ! length q) \<noteq> None)) f)"

definition h5_append :: "path \<Rightarrow> string \<Rightarrow> pred \<Rightarrow> world \<Rightarrow> world \<times> (error + unit)" where
  \<comment> \<open>\<^verbatim>\<open>with h5py.File(path, 'a') as fd: grp = fd.create_group(name); ...\<close>: mode
      \<^verbatim>\<open>'a'\<close> makes the file when there is none\<close>
  "h5_append fp name p w =
     (let f = store_at w fp; q = h5_path name
      in if h5_blocked f q
         then (w\<lparr>h5_files := (h5_files w)(fp \<mapsto> f)\<rparr>, Inl (GroupExists name))
         else (w\<lparr>h5_files := (h5_files w)(fp \<mapsto> f @ [(q, p)])\<rparr>, Inr ()))"

definition log_event :: "event \<Rightarrow> world \<Rightarrow> world" where
  "log_event e w = w\<lparr>events := events w @ [e]\<rparr>"

definition process_item ::
  "backend \<Rightarrow> bool \<Rightarrow> path \<Rightarrow> data \<Rightarrow> world \<Rightarrow> world \<times> (error + unit)" where
  \<comment> \<open>the body of the loop for a name that is not skipped, lines 183 to 203\<close>
  "process_item model as_half fp d w =
     (let w1 = log_event (Infer (d_name d)) w in
      case model d of
        Inl e \<Rightarrow> (w1, Inl e)
      | Inr p0 \<Rightarrow>
          (case postprocess as_half d p0 of
             Inl e \<Rightarrow> (w1, Inl e)
           | Inr p \<Rightarrow> h5_append fp (d_name d) p w1))"

fun extract_loop ::
  "backend \<Rightarrow> bool \<Rightarrow> path \<Rightarrow> string set \<Rightarrow> (error + data) list \<Rightarrow> world
     \<Rightarrow> world \<times> (error + unit)" where
  "extract_loop model as_half fp skip_names [] w = (w, Inr ())"
| "extract_loop model as_half fp skip_names (item # rest) w =
     (case item of
        Inl e \<Rightarrow> (w, Inl e)
      | Inr d \<Rightarrow>
          if d_name d \<in> skip_names then extract_loop model as_half fp skip_names rest w
          else
            (case process_item model as_half fp d w of
               (w', Inl e) \<Rightarrow> (w', Inl e)
             | (w', Inr u) \<Rightarrow> extract_loop model as_half fp skip_names rest w'))"

definition resolve_feature_path :: "conf \<Rightarrow> path option \<Rightarrow> path option \<Rightarrow> error + path" where
  "resolve_feature_path conf export_dir feature_path =
     (case feature_path of
        Some fp \<Rightarrow> Inr fp
      | None \<Rightarrow>
          (case export_dir of
             None \<Rightarrow> Inl NoExportDir
           | Some dir \<Rightarrow> Inr (path_join dir (conf_output conf @ ''.h5''))))"

definition main ::
  "filesystem \<Rightarrow> (string \<Rightarrow> error + backend) \<Rightarrow> conf \<Rightarrow> path \<Rightarrow> path option \<Rightarrow> bool
     \<Rightarrow> paths_arg \<Rightarrow> path option \<Rightarrow> world \<Rightarrow> world \<times> (error + path)" where
  "main fs dynamic_load conf image_dir export_dir as_half image_list feature_path w =
     (case ImageDataset_init fs image_dir (preprocessing conf) image_list of
        Inl e \<Rightarrow> (w, Inl e)
      | Inr ds \<Rightarrow>
          (case resolve_feature_path conf export_dir feature_path of
             Inl e \<Rightarrow> (w, Inl e)
           | Inr fp \<Rightarrow>
               let w1 = mkdir_parents (parent fp) w;
                   skip_names = (if path_exists w1 fp then list_h5_names w1 fp else {})
               in if set (names ds) \<subseteq> skip_names then (w1, Inr fp)
                  else
                    (case dynamic_load (model_name conf) of
                       Inl e \<Rightarrow> (w1, Inl e)
                     | Inr model \<Rightarrow>
                         (case extract_loop model as_half fp skip_names (loader fs ds)
                                 (log_event LoadBackend w1) of
                            (w2, Inl e) \<Rightarrow> (w2, Inl e)
                          | (w2, Inr u) \<Rightarrow> (w2, Inr fp)))))"

subsection \<open>What a run stores for a name\<close>

definition extract_one :: "filesystem \<Rightarrow> dataset \<Rightarrow> backend \<Rightarrow> bool \<Rightarrow> string \<Rightarrow> error + pred" where
  "extract_one fs ds model as_half name =
     (case load_image fs ds name of
        Inl e \<Rightarrow> Inl e
      | Inr d \<Rightarrow> (case model d of Inl e \<Rightarrow> Inl e | Inr p0 \<Rightarrow> postprocess as_half d p0))"

definition new_group :: "filesystem \<Rightarrow> dataset \<Rightarrow> backend \<Rightarrow> bool \<Rightarrow> string \<Rightarrow> h5path \<times> pred" where
  "new_group fs ds model as_half n =
     (h5_path n, case extract_one fs ds model as_half n of Inl e \<Rightarrow> Map.empty | Inr p \<Rightarrow> p)"

definition new_groups ::
  "filesystem \<Rightarrow> dataset \<Rightarrow> backend \<Rightarrow> bool \<Rightarrow> string list \<Rightarrow> h5file" where
  "new_groups fs ds model as_half ns = map (new_group fs ds model as_half) ns"

definition fresh_names :: "string set \<Rightarrow> (error + data) list \<Rightarrow> string set" where
  "fresh_names skip items = {d_name d |d. Inr d \<in> set items \<and> d_name d \<notin> skip}"

definition unrelated :: "h5path \<Rightarrow> h5path \<Rightarrow> bool" where
  \<comment> \<open>neither path is the other or leads to the other\<close>
  "unrelated p q = (\<not> prefix p q \<and> \<not> prefix q p)"

fun free_paths :: "h5path list \<Rightarrow> h5path list \<Rightarrow> bool" where
  \<comment> \<open>each new path is unrelated to the old paths and to the new paths before it\<close>
  "free_paths old [] = True"
| "free_paths old (p # ps) = (p \<noteq> [] \<and> list_all (unrelated p) old \<and> free_paths (old @ [p]) ps)"

definition link_name :: "string \<Rightarrow> bool" where
  \<comment> \<open>a name that \<^verbatim>\<open>create_dataset\<close> takes as the name of one link of the group\<close>
  "link_name k = (k \<noteq> [] \<and> k \<noteq> ''.'' \<and> CHR ''/'' \<notin> set k)"

definition plain_result :: "error + pred \<Rightarrow> bool" where
  \<comment> \<open>a result, and its field names are link names\<close>
  "plain_result r = (case r of Inl e \<Rightarrow> False | Inr p \<Rightarrow> (\<forall>k. p k \<noteq> None \<longrightarrow> link_name k))"

definition extractable ::
  "filesystem \<Rightarrow> dataset \<Rightarrow> backend \<Rightarrow> bool \<Rightarrow> h5file \<Rightarrow> string list \<Rightarrow> bool" where
  \<comment> \<open>every image loads, every name that is not a group name of the file \<open>f\<close> gets a
      result with plain field names, and the paths of these names are free in \<open>f\<close>\<close>
  "extractable fs ds model as_half f ns =
     (list_all (\<lambda>n. \<not> isl (load_image fs ds n)
                    \<and> (n \<in> group_names f \<or> plain_result (extract_one fs ds model as_half n))) ns
      \<and> free_paths (map fst f) (map h5_path (filter (\<lambda>n. n \<notin> group_names f) ns)))"


subsection \<open>A concrete run\<close>

text \<open>
  A root with \<^verbatim>\<open>a.jpg\<close> (100 by 50) and \<^verbatim>\<open>b.png\<close> (50 by 100), and \<^verbatim>\<open>resize_max = 80\<close>.
\<close>

definition ex_fs :: filesystem where
  "ex_fs =
     \<lparr>glob = (\<lambda>r pat. if pat = ''**/*.jpg'' then [[''a.jpg'']]
                      else if pat = ''**/*.png'' then [[''b.png'']] else []),
      exists_in = (\<lambda>r n. n = ''a.jpg'' \<or> n = ''b.png''),
      parse_image_lists = (\<lambda>f. Inr [''a.jpg'', ''b.png'']),
      read_image = (\<lambda>r n g. if n = ''a.jpg'' then Some (50, 100)
                             else if n = ''b.png'' then Some (100, 50) else None)\<rparr>"

definition ex_prep :: conf_dict where
  "ex_prep = \<lparr>globs_in = None, grayscale_in = Some True, resize_max_in = Some (Some 80),
              resize_force_in = None\<rparr>"

definition ex_conf :: conf where
  "ex_conf = \<lparr>conf_output = ''feats'', model_name = ''superpoint'', preprocessing = ex_prep\<rparr>"

definition ex_pred :: pred where
  "ex_pred =
     [''keypoints'' \<mapsto> \<lparr>dtype = Float32, shape = [2, 2], vals = [Num 10, Num 20, Num 30, Num 8]\<rparr>,
      ''scores'' \<mapsto> \<lparr>dtype = Float32, shape = [2], vals = [Num (1 / 2), Num (1 / 4)]\<rparr>]"

definition ex_model :: backend where
  "ex_model d = Inr ex_pred"

definition ex_load :: "string \<Rightarrow> error + backend" where
  "ex_load n = Inr ex_model"

definition ex_world :: world where
  "ex_world = \<lparr>dirs = {}, h5_files = Map.empty, events = []\<rparr>"

definition ex_done :: world where
  "ex_done =
     \<lparr>dirs = {[], [''out'']},
      h5_files = [[''out'', ''feats.h5''] \<mapsto> [([''a.jpg''], ex_pred), ([''b.png''], ex_pred)]],
      events = []\<rparr>"

definition ex_ds :: dataset where
  "ex_ds = \<lparr>ds_conf = \<lparr>globs = [''*.jpg'', ''*.png'', ''*.jpeg'', ''*.JPG'', ''*.PNG''],
      grayscale = True, resize_max = Some 80, resize_force = False\<rparr>,
      ds_root = [''images''], names = [''a.jpg'', ''b.png'']\<rparr>"


definition ex_stored :: pred where
  "ex_stored =
     [''keypoints'' \<mapsto> \<lparr>dtype = Float32, shape = [2, 2],
         vals = [Num (101 / 8), Num (201 / 8), Num (301 / 8), Num (81 / 8)]\<rparr>,
      ''scores'' \<mapsto> \<lparr>dtype = Float32, shape = [2], vals = [Num (1 / 2), Num (1 / 4)]\<rparr>,
      ''image_size'' \<mapsto> \<lparr>dtype = Int64, shape = [2], vals = [Num 50, Num 100]\<rparr>]"

definition ex_stored_a :: pred where
  "ex_stored_a =
     [''keypoints'' \<mapsto> \<lparr>dtype = Float32, shape = [2, 2],
         vals = [Num (101 / 8), Num (201 / 8), Num (301 / 8), Num (81 / 8)]\<rparr>,
      ''scores'' \<mapsto> \<lparr>dtype = Float32, shape = [2], vals = [Num (1 / 2), Num (1 / 4)]\<rparr>,
      ''image_size'' \<mapsto> \<lparr>dtype = Int64, shape = [2], vals = [Num 100, Num 50]\<rparr>]"

definition ex_dup :: paths_arg where
  "ex_dup = Entries [Str ''b.png'', PathObj [''b.png'']]"

definition ex_fs2 :: filesystem where
  "ex_fs2 =
     \<lparr>glob = (\<lambda>r pat. if pat = ''**/*.jpg''
                      then [[''a-b.jpg''], [''a'', ''b.jpg''], [''a-b.jpg'']]
                      else if pat = ''**/*.JPG'' then [[''a'', ''b.jpg'']] else []),
      exists_in = (\<lambda>r n. True),
      parse_image_lists = (\<lambda>f. Inl ListFileError),
      read_image = (\<lambda>r n g. Some (50, 100))\<rparr>"



definition ex_data_b :: data where
  "ex_data_b =
     \<lparr>d_name = ''b.png'',
      d_image = \<lparr>img_h = 80, img_w = 40, pix = Resized (Decoded ''b.png'' True) 40 80\<rparr>,
      original_size = (50, 100)\<rparr>"

definition ex_ds_plain :: dataset where
  "ex_ds_plain = ex_ds\<lparr>ds_conf := (ds_conf ex_ds)\<lparr>resize_max := None\<rparr>\<rparr>"

definition ex_plain_a :: data where
  "ex_plain_a =
     \<lparr>d_name = ''a.jpg'',
      d_image = \<lparr>img_h = 50, img_w = 100, pix = Decoded ''a.jpg'' True\<rparr>,
      original_size = (100, 50)\<rparr>"

definition ex_tenth :: ndarray where
  "ex_tenth =
     \<lparr>dtype = Float32, shape = [2, 2],
      vals = [Num (13421773 / 134217728), Num 10, Num 3, Num (13421773 / 134217728)]\<rparr>"

definition ex_tenth_out :: ndarray where
  "ex_tenth_out =
     \<lparr>dtype = Float32, shape = [2, 2],
      vals = [Num (838861 / 8388608), Num 10, Num 3, Num (838861 / 8388608)]\<rparr>"

definition ex_global :: pred where
  "ex_global =
     [''global_descriptor'' \<mapsto> \<lparr>dtype = Float64, shape = [2], vals = [Num (1 / 2), Num (1 / 4)]\<rparr>]"

definition ex_far :: ndarray where
  \<comment> \<open>keypoints far from the origin\<close>
  "ex_far = \<lparr>dtype = Float32, shape = [2, 2], vals = [Num 2047, Num 8, Num 10, Num 20]\<rparr>"

definition ex_triples :: ndarray where
  \<comment> \<open>keypoints with three coordinates each\<close>
  "ex_triples =
     \<lparr>dtype = Float32, shape = [2, 3],
      vals = [Num 1, Num 2, Num 3, Num 4, Num 5, Num 6]\<rparr>"

section \<open>Properties\<close>

subsection \<open>extract_loop and main\<close>

lemma loader_names: "loader fs ds = map (load_image fs ds) (names ds)"
proof -
  have "map (getitem fs ds) [0 ..< length (names ds)]
        = map (\<lambda>i. load_image fs ds (names ds ! i)) [0 ..< length (names ds)]"
    by (rule map_cong) (auto simp: getitem_def)
  also have "\<dots> = map (load_image fs ds) (map (\<lambda>i. names ds ! i) [0 ..< length (names ds)])"
    by simp
  also have "\<dots> = map (load_image fs ds) (names ds)"
    by (simp only: map_nth)
  finally show ?thesis by (simp add: loader_def)
qed

lemma load_image_name: "load_image fs ds n = Inr d \<Longrightarrow> d_name d = n"
  by (auto simp: load_image_def split: option.splits sum.splits prod.splits)

lemma store_at_log [simp]: "store_at (log_event e w) p = store_at w p"
  by (simp add: store_at_def log_event_def)

lemma h5_files_log [simp]: "h5_files (log_event e w) = h5_files w"
  by (simp add: log_event_def)

lemma dirs_log [simp]: "dirs (log_event e w) = dirs w"
  by (simp add: log_event_def)

lemma events_log [simp]: "events (log_event e w) = events w @ [e]"
  by (simp add: log_event_def)

lemma group_names_Nil [simp]: "group_names [] = {}"
  by (simp add: group_names_def)

lemma group_names_append [simp]: "group_names (f @ g) = group_names f \<union> group_names g"
  by (simp add: group_names_def)


lemma free_not_blocked:
  assumes "p \<noteq> []" "list_all (unrelated p) (map fst f)"
  shows "\<not> h5_blocked f p"
  using assms
  by (auto simp: h5_blocked_def list_ex_iff list_all_iff unrelated_def strict_prefix_def)


lemma h5_append_ok:
  "\<not> h5_blocked (store_at w fp) (h5_path n) \<Longrightarrow>
   h5_append fp n p w
     = (w\<lparr>h5_files := (h5_files w)(fp \<mapsto> store_at w fp @ [(h5_path n, p)])\<rparr>, Inr ())"
  by (simp add: h5_append_def Let_def)

lemma h5_append_dup:
  "h5_blocked (store_at w fp) (h5_path n) \<Longrightarrow>
   h5_append fp n p w
     = (w\<lparr>h5_files := (h5_files w)(fp \<mapsto> store_at w fp)\<rparr>, Inl (GroupExists n))"
  by (simp add: h5_append_def Let_def)


text \<open>process_item on an item that is fine and whose path is free\<close>
lemma process_item_ok:
  assumes "load_image fs ds n = Inr d" "extract_one fs ds model as_half n = Inr p"
    and "\<not> h5_blocked (store_at w fp) (h5_path n)"
  shows "process_item model as_half fp d w =
     (w\<lparr>h5_files := (h5_files w)(fp \<mapsto> store_at w fp @ [(h5_path n, p)]),
        events := events w @ [Infer n]\<rparr>, Inr ())"
  using assms load_image_name[OF assms(1)]
  by (auto simp: process_item_def extract_one_def h5_append_def Let_def log_event_def store_at_def
      split: sum.splits)


lemma new_groups_Nil [simp]: "new_groups fs ds model as_half [] = []"
  by (simp add: new_groups_def)

lemma new_groups_Cons:
  "extract_one fs ds model as_half n = Inr p \<Longrightarrow>
   new_groups fs ds model as_half (n # ns) = (h5_path n, p) # new_groups fs ds model as_half ns"
  by (simp add: new_groups_def new_group_def)

lemma map_fst_new_groups [simp]:
  "map fst (new_groups fs ds model as_half ns) = map h5_path ns"
  by (simp add: new_groups_def new_group_def comp_def)

lemma extract_loop_ok:
  assumes "\<forall>n\<in>set ns. \<exists>d. load_image fs ds n = Inr d"
    and "\<forall>n\<in>set ns. n \<notin> skip \<longrightarrow> (\<exists>p. extract_one fs ds model as_half n = Inr p)"
    and "free_paths (map fst (store_at w fp)) (map h5_path (filter (\<lambda>n. n \<notin> skip) ns))"
  shows "\<exists>w'. extract_loop model as_half fp skip (map (load_image fs ds) ns) w = (w', Inr ())
           \<and> dirs w' = dirs w
           \<and> events w' = events w @ map Infer (filter (\<lambda>n. n \<notin> skip) ns)
           \<and> store_at w' fp = store_at w fp @ new_groups fs ds model as_half (filter (\<lambda>n. n \<notin> skip) ns)
           \<and> (\<forall>q. q \<noteq> fp \<longrightarrow> h5_files w' q = h5_files w q)"
  using assms
proof (induction ns arbitrary: w)
  case Nil
  then show ?case by simp
next
  case (Cons n ns)
  from Cons.prems(1) obtain d where d: "load_image fs ds n = Inr d" by auto
  have nm: "d_name d = n" using d by (rule load_image_name)
  show ?case
  proof (cases "n \<in> skip")
    case True
    have "\<exists>w'. extract_loop model as_half fp skip (map (load_image fs ds) ns) w = (w', Inr ())
           \<and> dirs w' = dirs w
           \<and> events w' = events w @ map Infer (filter (\<lambda>n. n \<notin> skip) ns)
           \<and> store_at w' fp = store_at w fp @ new_groups fs ds model as_half (filter (\<lambda>n. n \<notin> skip) ns)
           \<and> (\<forall>q. q \<noteq> fp \<longrightarrow> h5_files w' q = h5_files w q)"
      using Cons.prems True by (intro Cons.IH) auto
    then show ?thesis using True d nm by simp
  next
    case False
    from Cons.prems(2) False obtain p where p: "extract_one fs ds model as_half n = Inr p" by auto
    from Cons.prems(3) False have fr: "h5_path n \<noteq> []"
      "list_all (unrelated (h5_path n)) (map fst (store_at w fp))"
      "free_paths (map fst (store_at w fp) @ [h5_path n])
         (map h5_path (filter (\<lambda>n. n \<notin> skip) ns))"
      by simp_all
    have free: "\<not> h5_blocked (store_at w fp) (h5_path n)"
      using fr(1,2) by (rule free_not_blocked)
    define w1 where "w1 = w\<lparr>h5_files := (h5_files w)(fp \<mapsto> store_at w fp @ [(h5_path n, p)]),
        events := events w @ [Infer n]\<rparr>"
    have step: "process_item model as_half fp d w = (w1, Inr ())"
      unfolding w1_def using d p free by (rule process_item_ok)
    have st1: "store_at w1 fp = store_at w fp @ [(h5_path n, p)]"
      by (simp add: w1_def store_at_def)
    have "\<exists>w'. extract_loop model as_half fp skip (map (load_image fs ds) ns) w1 = (w', Inr ())
           \<and> dirs w' = dirs w1
           \<and> events w' = events w1 @ map Infer (filter (\<lambda>n. n \<notin> skip) ns)
           \<and> store_at w' fp = store_at w1 fp @ new_groups fs ds model as_half (filter (\<lambda>n. n \<notin> skip) ns)
           \<and> (\<forall>q. q \<noteq> fp \<longrightarrow> h5_files w' q = h5_files w1 q)"
    proof (intro Cons.IH)
      show "\<forall>n\<in>set ns. \<exists>d. load_image fs ds n = Inr d" using Cons.prems(1) by simp
      show "\<forall>n\<in>set ns. n \<notin> skip \<longrightarrow> (\<exists>p. extract_one fs ds model as_half n = Inr p)"
        using Cons.prems(2) by simp
      show "free_paths (map fst (store_at w1 fp)) (map h5_path (filter (\<lambda>n. n \<notin> skip) ns))"
        using fr(3) by (simp add: st1)
    qed
    then obtain w' where w':
      "extract_loop model as_half fp skip (map (load_image fs ds) ns) w1 = (w', Inr ())"
      "dirs w' = dirs w1"
      "events w' = events w1 @ map Infer (filter (\<lambda>n. n \<notin> skip) ns)"
      "store_at w' fp = store_at w1 fp @ new_groups fs ds model as_half (filter (\<lambda>n. n \<notin> skip) ns)"
      "\<forall>q. q \<noteq> fp \<longrightarrow> h5_files w' q = h5_files w1 q"
      by blast
    have "extract_loop model as_half fp skip (map (load_image fs ds) (n # ns)) w = (w', Inr ())"
      using d nm False step w'(1) by simp
    moreover have "dirs w' = dirs w" using w'(2) by (simp add: w1_def)
    moreover have "events w' = events w @ map Infer (filter (\<lambda>n. n \<notin> skip) (n # ns))"
      using w'(3) False by (simp add: w1_def)
    moreover have "store_at w' fp =
        store_at w fp @ new_groups fs ds model as_half (filter (\<lambda>n. n \<notin> skip) (n # ns))"
      using w'(4) False by (simp add: st1 new_groups_Cons[OF p])
    moreover have "\<forall>q. q \<noteq> fp \<longrightarrow> h5_files w' q = h5_files w q"
      using w'(5) by (simp add: w1_def)
    ultimately show ?thesis by blast
  qed
qed

lemma process_item_inv:
  assumes "process_item model as_half fp d w = (w', r)"
  shows "dirs w' = dirs w" "events w' = events w @ [Infer (d_name d)]"
    "\<exists>new. store_at w' fp = store_at w fp @ new \<and> set (map fst new) \<subseteq> {h5_path (d_name d)}"
    "\<forall>q. q \<noteq> fp \<longrightarrow> h5_files w' q = h5_files w q"
  using assms
  by (auto simp: process_item_def h5_append_def Let_def log_event_def store_at_def
      split: sum.splits if_splits option.splits)

lemma fresh_names_Cons_subset: "fresh_names skip items \<subseteq> fresh_names skip (item # items)"
  by (auto simp: fresh_names_def)

lemma extract_loop_inv:
  assumes "extract_loop model as_half fp skip items w = (w', r)"
  shows "dirs w' = dirs w
       \<and> (\<forall>q. q \<noteq> fp \<longrightarrow> h5_files w' q = h5_files w q)
       \<and> (\<exists>ns new. events w' = events w @ map Infer ns \<and> set ns \<subseteq> fresh_names skip items
              \<and> store_at w' fp = store_at w fp @ new
              \<and> set (map fst new) \<subseteq> h5_path ` set ns)"
  using assms
proof (induction items arbitrary: w)
  case Nil
  then have "w' = w" by simp
  then show ?case by (auto intro!: exI[of _ "[]"])
next
  case (Cons item items)
  show ?case
  proof (cases item)
    case (Inl e)
    with Cons.prems have "w' = w" by simp
    then show ?thesis by (auto intro!: exI[of _ "[]"])
  next
    case (Inr d)
    show ?thesis
    proof (cases "d_name d \<in> skip")
      case True
      with Inr Cons.prems have "extract_loop model as_half fp skip items w = (w', r)" by simp
      from Cons.IH[OF this] show ?thesis
        using fresh_names_Cons_subset[of skip items item] by blast
    next
      case False
      obtain w1 r1 where step: "process_item model as_half fp d w = (w1, r1)"
        by (cases "process_item model as_half fp d w")
      note inv1 = process_item_inv[OF step]
      from inv1(3) obtain new1 where new1: "store_at w1 fp = store_at w fp @ new1"
        "set (map fst new1) \<subseteq> {h5_path (d_name d)}" by blast
      have dfresh: "d_name d \<in> fresh_names skip (item # items)"
        using Inr False by (auto simp: fresh_names_def)
      show ?thesis
      proof (cases r1)
        case (Inl e)
        with Inr False step Cons.prems have w': "w' = w1" by simp
        have "events w' = events w @ map Infer [d_name d]" using inv1(2) w' by simp
        moreover have "set [d_name d] \<subseteq> fresh_names skip (item # items)" using dfresh by simp
        moreover have "store_at w' fp = store_at w fp @ new1" using new1(1) w' by simp
        moreover have "set (map fst new1) \<subseteq> h5_path ` set [d_name d]" using new1(2) by simp
        ultimately have "\<exists>ns new. events w' = events w @ map Infer ns
              \<and> set ns \<subseteq> fresh_names skip (item # items)
              \<and> store_at w' fp = store_at w fp @ new
              \<and> set (map fst new) \<subseteq> h5_path ` set ns" by blast
        then show ?thesis using inv1(1,4) w' by simp
      next
        case r1: (Inr u)
        with Inr False step Cons.prems
        have "extract_loop model as_half fp skip items w1 = (w', r)" by simp
        from Cons.IH[OF this] obtain ns new where ih:
          "dirs w' = dirs w1"
          "\<forall>q. q \<noteq> fp \<longrightarrow> h5_files w' q = h5_files w1 q"
          "events w' = events w1 @ map Infer ns" "set ns \<subseteq> fresh_names skip items"
          "store_at w' fp = store_at w1 fp @ new"
          "set (map fst new) \<subseteq> h5_path ` set ns"
          by blast
        have "dirs w' = dirs w" using ih(1) inv1(1) by simp
        moreover have "\<forall>q. q \<noteq> fp \<longrightarrow> h5_files w' q = h5_files w q"
          using ih(2) inv1(4) by simp
        moreover have "events w' = events w @ map Infer (d_name d # ns)"
          using ih(3) inv1(2) by simp
        moreover have "set (d_name d # ns) \<subseteq> fresh_names skip (item # items)"
          using ih(4) dfresh fresh_names_Cons_subset[of skip items item] by auto
        moreover have "store_at w' fp = store_at w fp @ (new1 @ new)"
          using ih(5) new1(1) by simp
        moreover have "set (map fst (new1 @ new)) \<subseteq> h5_path ` set (d_name d # ns)"
          using ih(6) new1(2) by auto
        ultimately show ?thesis by blast
      qed
    qed
  qed
qed

lemma skip_names_eq:
  "(if path_exists (mkdir_parents d w) fp then list_h5_names (mkdir_parents d w) fp else {})
     = list_h5_names w fp"
  by (auto simp: path_exists_def list_h5_names_def mkdir_parents_def store_at_def
      split: option.splits)

lemma store_at_mkdir [simp]: "store_at (mkdir_parents d w) p = store_at w p"
  by (simp add: store_at_def mkdir_parents_def)

lemma h5_files_mkdir [simp]: "h5_files (mkdir_parents d w) = h5_files w"
  by (simp add: mkdir_parents_def)

lemma events_mkdir [simp]: "events (mkdir_parents d w) = events w"
  by (simp add: mkdir_parents_def)

lemma dirs_mkdir [simp]: "dirs (mkdir_parents d w) = dirs w \<union> set (prefixes d)"
  by (simp add: mkdir_parents_def)

lemma mkdir_idem [simp]: "mkdir_parents d (mkdir_parents d w) = mkdir_parents d w"
  by (simp add: mkdir_parents_def)

text \<open>main, once the names and the feature path are resolved\<close>
lemma main_resolved:
  assumes "ImageDataset_init fs image_dir (preprocessing conf) image_list = Inr ds"
    and "resolve_feature_path conf export_dir feature_path = Inr fp"
  shows "main fs dynamic_load conf image_dir export_dir as_half image_list feature_path w =
     (let w1 = mkdir_parents (parent fp) w; skip_names = list_h5_names w fp
      in if set (names ds) \<subseteq> skip_names then (w1, Inr fp)
         else (case dynamic_load (model_name conf) of
                 Inl e \<Rightarrow> (w1, Inl e)
               | Inr model \<Rightarrow>
                   (case extract_loop model as_half fp skip_names
                           (map (load_image fs ds) (names ds)) (log_event LoadBackend w1) of
                      (w2, Inl e) \<Rightarrow> (w2, Inl e)
                    | (w2, Inr u) \<Rightarrow> (w2, Inr fp))))"
  unfolding main_def Let_def skip_names_eq loader_names using assms by simp

lemma not_isl_iff: "\<not> isl x \<longleftrightarrow> (\<exists>y. x = Inr y)"
  by (cases x) auto

lemma plain_result_Inr: "plain_result r \<Longrightarrow> \<exists>p. r = Inr p"
  by (cases r) (auto simp: plain_result_def)

lemma extract_loop_extractable:
  assumes "extractable fs ds model as_half (store_at w fp) ns"
  shows "\<exists>w'. extract_loop model as_half fp (list_h5_names w fp) (map (load_image fs ds) ns) w
               = (w', Inr ())
           \<and> dirs w' = dirs w
           \<and> events w' = events w @ map Infer (filter (\<lambda>n. n \<notin> list_h5_names w fp) ns)
           \<and> store_at w' fp = store_at w fp @
                new_groups fs ds model as_half (filter (\<lambda>n. n \<notin> list_h5_names w fp) ns)
           \<and> (\<forall>q. q \<noteq> fp \<longrightarrow> h5_files w' q = h5_files w q)"
proof (rule extract_loop_ok)
  show "\<forall>n\<in>set ns. \<exists>d. load_image fs ds n = Inr d"
    using assms(1) by (auto simp: extractable_def list_all_iff not_isl_iff)
  show "\<forall>n\<in>set ns. n \<notin> list_h5_names w fp \<longrightarrow> (\<exists>p. extract_one fs ds model as_half n = Inr p)"
    using assms(1) by (auto simp: extractable_def list_all_iff list_h5_names_def
        dest: plain_result_Inr)
  show "free_paths (map fst (store_at w fp))
          (map h5_path (filter (\<lambda>n. n \<notin> list_h5_names w fp) ns))"
    using assms(1) by (simp add: extractable_def list_h5_names_def)
qed

lemma list_h5_names_log [simp]: "list_h5_names (log_event e w) p = list_h5_names w p"
  by (simp add: list_h5_names_def)

lemma list_h5_names_mkdir [simp]: "list_h5_names (mkdir_parents d w) p = list_h5_names w p"
  by (simp add: list_h5_names_def)

lemma main_ok:
  assumes init: "ImageDataset_init fs image_dir (preprocessing conf) image_list = Inr ds"
    and fp: "resolve_feature_path conf export_dir feature_path = Inr fp"
    and load: "dynamic_load (model_name conf) = Inr model"
    and ok: "extractable fs ds model as_half (store_at w fp) (names ds)"
  shows "\<exists>w'. main fs dynamic_load conf image_dir export_dir as_half image_list feature_path w
               = (w', Inr fp)
           \<and> dirs w' = dirs w \<union> set (prefixes (parent fp))
           \<and> events w' = events w @
                (if set (names ds) \<subseteq> list_h5_names w fp then []
                 else LoadBackend # map Infer (filter (\<lambda>n. n \<notin> list_h5_names w fp) (names ds)))
           \<and> store_at w' fp = store_at w fp @
                new_groups fs ds model as_half (filter (\<lambda>n. n \<notin> list_h5_names w fp) (names ds))
           \<and> (\<forall>q. q \<noteq> fp \<longrightarrow> h5_files w' q = h5_files w q)"
proof (cases "set (names ds) \<subseteq> list_h5_names w fp")
  case True
  then have "filter (\<lambda>n. n \<notin> list_h5_names w fp) (names ds) = []"
    by (auto simp: filter_empty_conv)
  then show ?thesis
    unfolding main_resolved[OF init fp] using True by (simp add: Let_def)
next
  case False
  let ?w1 = "log_event LoadBackend (mkdir_parents (parent fp) w)"
  have ok1: "extractable fs ds model as_half (store_at ?w1 fp) (names ds)"
    using ok by simp
  from extract_loop_extractable[OF ok1] obtain w' where w':
    "extract_loop model as_half fp (list_h5_names w fp) (map (load_image fs ds) (names ds)) ?w1
       = (w', Inr ())"
    "dirs w' = dirs ?w1"
    "events w' = events ?w1 @ map Infer (filter (\<lambda>n. n \<notin> list_h5_names w fp) (names ds))"
    "store_at w' fp = store_at ?w1 fp @
       new_groups fs ds model as_half (filter (\<lambda>n. n \<notin> list_h5_names w fp) (names ds))"
    "\<forall>q. q \<noteq> fp \<longrightarrow> h5_files w' q = h5_files ?w1 q"
    by auto
  have "main fs dynamic_load conf image_dir export_dir as_half image_list feature_path w
               = (w', Inr fp)"
    unfolding main_resolved[OF init fp] using False load w'(1) by (simp add: Let_def)
  then show ?thesis using w'(2-5) False by simp
qed

lemma fresh_names_load:
  "fresh_names skip (map (load_image fs ds) ns) \<subseteq> set ns - skip"
proof
  fix n assume "n \<in> fresh_names skip (map (load_image fs ds) ns)"
  then obtain d m where d: "Inr d = load_image fs ds m" "m \<in> set ns" "d_name d = n" "n \<notin> skip"
    by (auto simp: fresh_names_def)
  from load_image_name[OF d(1)[symmetric]] d show "n \<in> set ns - skip" by simp
qed

lemma main_inv:
  assumes run: "main fs dynamic_load conf image_dir export_dir as_half image_list feature_path w
               = (w', r)"
  shows "dirs w \<subseteq> dirs w'"
    and "prefix (store_at w q) (store_at w' q)"
    and "\<exists>evs. events w' = events w @ evs
           \<and> (\<forall>n. Infer n \<in> set evs \<longrightarrow>
                 (\<exists>ds fp. ImageDataset_init fs image_dir (preprocessing conf) image_list = Inr ds
                     \<and> resolve_feature_path conf export_dir feature_path = Inr fp
                     \<and> n \<in> set (names ds) \<and> n \<notin> list_h5_names w fp))"
    and "ImageDataset_init fs image_dir (preprocessing conf) image_list = Inr ds \<Longrightarrow>
         resolve_feature_path conf export_dir feature_path = Inr fp \<Longrightarrow>
         (\<exists>new. store_at w' fp = store_at w fp @ new
              \<and> set (map fst new) \<subseteq> h5_path ` (set (names ds) - list_h5_names w fp))
         \<and> (\<forall>p. p \<noteq> fp \<longrightarrow> h5_files w' p = h5_files w p)
         \<and> set (prefixes (parent fp)) \<subseteq> dirs w'
         \<and> (\<forall>p. r = Inr p \<longrightarrow> p = fp)"
proof -
  have all: "dirs w \<subseteq> dirs w' \<and> prefix (store_at w q) (store_at w' q)
    \<and> (\<exists>evs. events w' = events w @ evs
           \<and> (\<forall>n. Infer n \<in> set evs \<longrightarrow>
                 (\<exists>ds fp. ImageDataset_init fs image_dir (preprocessing conf) image_list = Inr ds
                     \<and> resolve_feature_path conf export_dir feature_path = Inr fp
                     \<and> n \<in> set (names ds) \<and> n \<notin> list_h5_names w fp)))
    \<and> (\<forall>ds fp. ImageDataset_init fs image_dir (preprocessing conf) image_list = Inr ds \<longrightarrow>
         resolve_feature_path conf export_dir feature_path = Inr fp \<longrightarrow>
         (\<exists>new. store_at w' fp = store_at w fp @ new
              \<and> set (map fst new) \<subseteq> h5_path ` (set (names ds) - list_h5_names w fp))
         \<and> (\<forall>p. p \<noteq> fp \<longrightarrow> h5_files w' p = h5_files w p)
         \<and> set (prefixes (parent fp)) \<subseteq> dirs w'
         \<and> (\<forall>p. r = Inr p \<longrightarrow> p = fp))"
  proof (cases "ImageDataset_init fs image_dir (preprocessing conf) image_list")
    case (Inl e)
    with run have "w' = w" by (simp add: main_def)
    then show ?thesis using Inl by (auto intro: exI[of _ "[]"])
  next
    case init: (Inr ds)
    show ?thesis
    proof (cases "resolve_feature_path conf export_dir feature_path")
      case (Inl e)
      with run init have "w' = w" by (simp add: main_def)
      then show ?thesis using Inl by (auto intro: exI[of _ "[]"])
    next
      case fp: (Inr fp)
      note m = run[unfolded main_resolved[OF init fp] Let_def]
      let ?w0 = "mkdir_parents (parent fp) w"
      have early: ?thesis if w': "w' = ?w0" and r: "\<forall>p. r = Inr p \<longrightarrow> p = fp"
      proof -
        have c1: "dirs w \<subseteq> dirs w'" using w' by auto
        have c2: "prefix (store_at w q) (store_at w' q)" using w' by simp
        have c3: "\<exists>evs. events w' = events w @ evs
           \<and> (\<forall>n. Infer n \<in> set evs \<longrightarrow>
                 (\<exists>ds fp. ImageDataset_init fs image_dir (preprocessing conf) image_list = Inr ds
                     \<and> resolve_feature_path conf export_dir feature_path = Inr fp
                     \<and> n \<in> set (names ds) \<and> n \<notin> list_h5_names w fp))"
          using w' by (intro exI[of _ "[]"]) simp
        have d1: "\<exists>new. store_at w' fp = store_at w fp @ new
              \<and> set (map fst new) \<subseteq> h5_path ` (set (names ds) - list_h5_names w fp)"
          using w' by (intro exI[of _ "[]"]) simp
        have c4: "\<forall>ds fp. ImageDataset_init fs image_dir (preprocessing conf) image_list = Inr ds \<longrightarrow>
             resolve_feature_path conf export_dir feature_path = Inr fp \<longrightarrow>
             (\<exists>new. store_at w' fp = store_at w fp @ new
                  \<and> set (map fst new) \<subseteq> h5_path ` (set (names ds) - list_h5_names w fp))
             \<and> (\<forall>p. p \<noteq> fp \<longrightarrow> h5_files w' p = h5_files w p)
             \<and> set (prefixes (parent fp)) \<subseteq> dirs w'
             \<and> (\<forall>p. r = Inr p \<longrightarrow> p = fp)"
          using d1 r w' by (simp add: init fp)
        show ?thesis using c1 c2 c3 c4 by (intro conjI)
      qed
      show ?thesis
      proof (cases "set (names ds) \<subseteq> list_h5_names w fp")
        case True
        with m have "w' = ?w0" "r = Inr fp" by auto
        then show ?thesis by (intro early) simp_all
      next
        case False
        show ?thesis
        proof (cases "dynamic_load (model_name conf)")
          case (Inl e)
          with m False have "w' = ?w0" "r = Inl e" by auto
          then show ?thesis by (intro early) simp_all
        next
          case (Inr model)
          obtain w2 r2 where loop:
            "extract_loop model as_half fp (list_h5_names w fp)
               (map (load_image fs ds) (names ds)) (log_event LoadBackend ?w0) = (w2, r2)"
            by (cases "extract_loop model as_half fp (list_h5_names w fp)
               (map (load_image fs ds) (names ds)) (log_event LoadBackend ?w0)")
          from m False Inr loop have w': "w' = w2" and r: "\<forall>p. r = Inr p \<longrightarrow> p = fp"
            by (auto split: sum.splits)
          from extract_loop_inv[OF loop] obtain ns new where inv:
            "dirs w2 = dirs (log_event LoadBackend ?w0)"
            "\<forall>q. q \<noteq> fp \<longrightarrow> h5_files w2 q = h5_files (log_event LoadBackend ?w0) q"
            "events w2 = events (log_event LoadBackend ?w0) @ map Infer ns"
            "set ns \<subseteq> fresh_names (list_h5_names w fp) (map (load_image fs ds) (names ds))"
            "store_at w2 fp = store_at (log_event LoadBackend ?w0) fp @ new"
            "set (map fst new) \<subseteq> h5_path ` set ns"
            by blast
          have ns: "set ns \<subseteq> set (names ds) - list_h5_names w fp"
            using inv(4) fresh_names_load by blast
          have c1: "dirs w \<subseteq> dirs w'" using inv(1) w' by auto
          have c2: "prefix (store_at w q) (store_at w' q)"
          proof (cases "q = fp")
            case True
            then show ?thesis using inv(5) w' by simp
          next
            case False
            then show ?thesis using inv(2) w' by (simp add: store_at_def)
          qed
          have ev: "events w' = events w @ (LoadBackend # map Infer ns)"
            using inv(3) w' by simp
          have c3: "\<exists>evs. events w' = events w @ evs
           \<and> (\<forall>n. Infer n \<in> set evs \<longrightarrow>
                 (\<exists>ds fp. ImageDataset_init fs image_dir (preprocessing conf) image_list = Inr ds
                     \<and> resolve_feature_path conf export_dir feature_path = Inr fp
                     \<and> n \<in> set (names ds) \<and> n \<notin> list_h5_names w fp))"
          proof (intro exI[of _ "LoadBackend # map Infer ns"] conjI allI impI)
            show "events w' = events w @ LoadBackend # map Infer ns" by (rule ev)
          next
            fix n assume "Infer n \<in> set (LoadBackend # map Infer ns)"
            then have "n \<in> set ns" by auto
            with ns have "n \<in> set (names ds) \<and> n \<notin> list_h5_names w fp" by auto
            with init fp show "\<exists>ds fp. ImageDataset_init fs image_dir (preprocessing conf) image_list = Inr ds
                     \<and> resolve_feature_path conf export_dir feature_path = Inr fp
                     \<and> n \<in> set (names ds) \<and> n \<notin> list_h5_names w fp" by simp
          qed
          have "set (map fst new) \<subseteq> h5_path ` (set (names ds) - list_h5_names w fp)"
            using inv(6) ns by blast
          then have d1: "\<exists>new. store_at w' fp = store_at w fp @ new
              \<and> set (map fst new) \<subseteq> h5_path ` (set (names ds) - list_h5_names w fp)"
            using inv(5) w' by (intro exI[of _ new]) simp
          have d2: "\<forall>p. p \<noteq> fp \<longrightarrow> h5_files w' p = h5_files w p"
            using inv(2) w' by simp
          have d3: "set (prefixes (parent fp)) \<subseteq> dirs w'"
            using inv(1) w' by simp
          have c4: "\<forall>ds fp. ImageDataset_init fs image_dir (preprocessing conf) image_list = Inr ds \<longrightarrow>
             resolve_feature_path conf export_dir feature_path = Inr fp \<longrightarrow>
             (\<exists>new. store_at w' fp = store_at w fp @ new
                  \<and> set (map fst new) \<subseteq> h5_path ` (set (names ds) - list_h5_names w fp))
             \<and> (\<forall>p. p \<noteq> fp \<longrightarrow> h5_files w' p = h5_files w p)
             \<and> set (prefixes (parent fp)) \<subseteq> dirs w'
             \<and> (\<forall>p. r = Inr p \<longrightarrow> p = fp)"
            using d1 d2 d3 r by (simp add: init fp)
          show ?thesis using c1 c2 c3 c4 by (intro conjI)
        qed
      qed
    qed
  qed
  show "dirs w \<subseteq> dirs w'" using all by blast
  show "prefix (store_at w q) (store_at w' q)" using all by blast
  show "\<exists>evs. events w' = events w @ evs
           \<and> (\<forall>n. Infer n \<in> set evs \<longrightarrow>
                 (\<exists>ds fp. ImageDataset_init fs image_dir (preprocessing conf) image_list = Inr ds
                     \<and> resolve_feature_path conf export_dir feature_path = Inr fp
                     \<and> n \<in> set (names ds) \<and> n \<notin> list_h5_names w fp))" using all by blast
  show "ImageDataset_init fs image_dir (preprocessing conf) image_list = Inr ds \<Longrightarrow>
         resolve_feature_path conf export_dir feature_path = Inr fp \<Longrightarrow>
         (\<exists>new. store_at w' fp = store_at w fp @ new
              \<and> set (map fst new) \<subseteq> h5_path ` (set (names ds) - list_h5_names w fp))
         \<and> (\<forall>p. p \<noteq> fp \<longrightarrow> h5_files w' p = h5_files w p)
         \<and> set (prefixes (parent fp)) \<subseteq> dirs w'
         \<and> (\<forall>p. r = Inr p \<longrightarrow> p = fp)" using all by blast
qed








lemma load_image_names [simp]: "load_image fs (ds\<lparr>names := ns\<rparr>) = load_image fs ds"
  by (rule ext) (simp add: load_image_def split: option.splits)

lemma extract_one_names [simp]:
  "extract_one fs (ds\<lparr>names := ns\<rparr>) model as_half = extract_one fs ds model as_half"
  by (rule ext) (simp add: extract_one_def)

lemma new_groups_names [simp]:
  "new_groups fs (ds\<lparr>names := ns\<rparr>) model as_half = new_groups fs ds model as_half"
  by (rule ext) (simp add: new_groups_def new_group_def)

lemma extractable_names [simp]:
  "extractable fs (ds\<lparr>names := ns\<rparr>) model as_half = extractable fs ds model as_half"
  by (rule ext)+ (simp add: extractable_def)

subsection \<open>Path resolution\<close>

lemma init_Entries_names:
  "ImageDataset_init fs rootdir c (Entries es) = Inr ds \<Longrightarrow> names ds = map entry_name es"
  by (auto simp: ImageDataset_init_def checked_names_def Let_def split: option.splits)

lemma first_missing_Some:
  "first_missing fs rootdir ns = Some m \<Longrightarrow> m \<in> set ns \<and> \<not> exists_in fs rootdir m"
  by (induction ns) (auto split: if_splits)

lemma first_missing_None:
  "first_missing fs rootdir ns = None \<longleftrightarrow> (\<forall>n\<in>set ns. exists_in fs rootdir n)"
  by (induction ns) auto

lemma first_missing_ex:
  assumes "n \<in> set ns" "\<not> exists_in fs rootdir n"
  shows "\<exists>m. first_missing fs rootdir ns = Some m"
proof (cases "first_missing fs rootdir ns")
  case None
  with assms show ?thesis by (simp add: first_missing_None)
next
  case (Some m)
  then show ?thesis by simp
qed

lemma main_init_error:
  "ImageDataset_init fs image_dir (preprocessing conf) image_list = Inl e \<Longrightarrow>
   main fs dynamic_load conf image_dir export_dir as_half image_list feature_path w = (w, Inl e)"
  by (simp add: main_def)

lemma split_slash_noslash: "CHR ''/'' \<notin> set c \<Longrightarrow> split_slash c = [c]"
  by (induction c) auto

lemma split_slash_append:
  "CHR ''/'' \<notin> set c \<Longrightarrow> split_slash (c @ CHR ''/'' # rest) = c # split_slash rest"
  by (induction c) auto

lemma split_join:
  "p \<noteq> [] \<Longrightarrow> list_all valid_part p \<Longrightarrow> split_slash (join_posix p) = p"
proof (induction p rule: join_posix.induct)
  case 1
  then show ?case by simp
next
  case (2 c)
  then show ?case by (simp add: valid_part_def split_slash_noslash)
next
  case (3 c d cs)
  then show ?case by (simp add: valid_part_def split_slash_append)
qed

lemma as_posix_rel: "valid_rel_path p \<Longrightarrow> as_posix p = join_posix p"
  by (cases p) (auto simp: valid_rel_path_def valid_part_def as_posix_def)

lemma split_as_posix: "valid_rel_path p \<Longrightarrow> split_slash (as_posix p) = p"
  by (simp add: as_posix_rel) (simp add: valid_rel_path_def split_join)



lemma as_posix_inj: "inj_on as_posix {p. valid_rel_path p}"
  by (rule inj_on_inverseI[where g = split_slash]) (simp add: split_as_posix)

lemma init_glob_names:
  assumes "ImageDataset_init fs rootdir c PathsNone = Inr ds"
  shows "names ds = map as_posix (sort (remdups (glob_paths fs rootdir
            (globs (merge_conf default_conf c)))))"
  using assms by (auto simp: ImageDataset_init_def Let_def split: if_splits)

lemma init_ListFile_names:
  "parse_image_lists fs f = Inr ns \<Longrightarrow>
   ImageDataset_init fs rootdir c (ListFile f) = Inr ds \<Longrightarrow> names ds = ns"
  by (auto simp: ImageDataset_init_def checked_names_def Let_def split: option.splits)

lemma sort_remdups_set:
  fixes xs ys :: "'a::linorder list"
  assumes "set xs = set ys"
  shows "sort (remdups xs) = sort (remdups ys)"
proof -
  have "sort (remdups xs) = sorted_list_of_set (set xs)"
    by (simp add: sorted_list_of_set_sort_remdups)
  also have "\<dots> = sort (remdups ys)"
    by (simp add: assms sorted_list_of_set_sort_remdups)
  finally show ?thesis .
qed

subsection \<open>Rounding\<close>

lemma rne_of_int [simp]: "rne (of_int n) = n"
  by (simp add: rne_def)

lemma rne_error: "\<bar>of_int (rne x) - x\<bar> \<le> 1 / 2"
proof -
  have "of_int \<lfloor>x\<rfloor> \<le> x" "x < of_int \<lfloor>x\<rfloor> + 1" by linarith+
  then show ?thesis by (auto simp: rne_def Let_def)
qed

lemma rne_le: "x \<le> of_int n \<Longrightarrow> rne x \<le> n"
proof -
  assume a: "x \<le> of_int n"
  show ?thesis
  proof (cases "x = of_int n")
    case True
    then show ?thesis by simp
  next
    case False
    with a have lt: "x < of_int n" by simp
    then have "\<lfloor>x\<rfloor> < n" by (simp add: floor_less_iff)
    then have "\<lfloor>x\<rfloor> + 1 \<le> n" by simp
    moreover have "rne x \<le> \<lfloor>x\<rfloor> + 1" by (simp add: rne_def Let_def)
    ultimately show ?thesis by linarith
  qed
qed

lemma rne_near: "\<bar>x - of_int n\<bar> < 1 / 2 \<Longrightarrow> rne x = n"
proof -
  assume a: "\<bar>x - of_int n\<bar> < 1 / 2"
  have e: "\<bar>of_int (rne x) - x\<bar> \<le> 1 / 2" by (rule rne_error)
  have "\<bar>(of_int (rne x) :: rat) - of_int n\<bar> < 1" using a e by linarith
  then have "\<bar>(of_int (rne x - n) :: rat)\<bar> < 1" by simp
  then have "\<bar>rne x - n\<bar> < 1" by (simp only: of_int_abs[symmetric] of_int_less_1_iff)
  then show ?thesis by linarith
qed


lemma rne_nonneg: "0 \<le> x \<Longrightarrow> 0 \<le> rne x"
  by (auto simp: rne_def Let_def)

lemma bitlen_rat_bounds:
  assumes "0 < (a::int)"
  shows "(2::rat) powi (bitlen a - 1) \<le> of_int a" "(of_int a :: rat) < 2 powi (bitlen a)"
proof -
  from bitlen_bounds[OF assms] have b: "2 ^ nat (bitlen a - 1) \<le> a" "a < 2 ^ nat (bitlen a)"
    by auto
  have "bitlen a \<noteq> 0" using assms by (simp add: bitlen_eq_zero_iff)
  then have pos: "0 < bitlen a" using bitlen_nonneg[of a] by linarith
  have "(of_int (2 ^ nat (bitlen a - 1)) :: rat) \<le> of_int a" using b(1) by (simp only: of_int_le_iff)
  then show "(2::rat) powi (bitlen a - 1) \<le> of_int a"
    using pos by (simp add: power_int_def)
  have "(of_int a :: rat) < of_int (2 ^ nat (bitlen a))" using b(2) by (simp only: of_int_less_iff)
  then show "(of_int a :: rat) < 2 powi (bitlen a)"
    using pos by (simp add: power_int_def)
qed

lemma ilog2_bounds:
  assumes "0 < x"
  shows "2 powi (ilog2 x) \<le> x" "x < 2 powi (ilog2 x + 1)"
proof -
  obtain a b where q: "quotient_of x = (a, b)" by (cases "quotient_of x")
  then have b: "0 < b" and x: "x = of_int a / of_int b"
    by (auto dest: quotient_of_denom_pos quotient_of_div)
  from assms x b have a: "0 < a" by (simp add: zero_less_divide_iff)
  let ?e = "bitlen a - bitlen b"
  have bq: "(0::rat) < of_int b" using b by simp
  have up: "x < 2 powi (?e + 1)"
  proof -
    have "of_int a < (2::rat) powi (bitlen a)" by (rule bitlen_rat_bounds[OF a])
    moreover have "(2::rat) powi (bitlen b - 1) \<le> of_int b" by (rule bitlen_rat_bounds[OF b])
    ultimately have "of_int a / of_int b < (2::rat) powi (bitlen a) / 2 powi (bitlen b - 1)"
      using a by (intro frac_less) auto
    also have "\<dots> = 2 powi (?e + 1)"
      by (simp add: power_int_diff[symmetric] algebra_simps)
    finally show ?thesis by (simp add: x)
  qed
  have low: "2 powi (?e - 1) < x"
  proof -
    have "(2::rat) powi (bitlen a - 1) \<le> of_int a" by (rule bitlen_rat_bounds[OF a])
    moreover have "of_int b < (2::rat) powi (bitlen b)" by (rule bitlen_rat_bounds[OF b])
    ultimately have "(2::rat) powi (bitlen a - 1) / 2 powi (bitlen b) < of_int a / of_int b"
      using bq by (intro frac_less2) auto
    moreover have "(2::rat) powi (bitlen a - 1) / 2 powi (bitlen b) = 2 powi (?e - 1)"
      by (simp add: power_int_diff[symmetric] algebra_simps)
    ultimately show ?thesis by (simp add: x)
  qed
  have il: "ilog2 x = (if 2 powi ?e \<le> x then ?e else ?e - 1)"
    by (simp add: ilog2_def q Let_def)
  show "2 powi (ilog2 x) \<le> x" using low by (auto simp: il less_imp_le)
  show "x < 2 powi (ilog2 x + 1)" using up by (auto simp: il)
qed

lemma pow2_pos [simp]: "0 < (2::rat) powi k"
  by (simp add: zero_less_power_int)

lemma ilog2_less:
  assumes "0 < x" "x < 2 powi k"
  shows "ilog2 x < k"
proof (rule ccontr)
  assume "\<not> ilog2 x < k"
  then have "k \<le> ilog2 x" by simp
  then have "(2::rat) powi k \<le> 2 powi (ilog2 x)" by (intro power_int_increasing) auto
  with ilog2_bounds(1)[OF assms(1)] assms(2) show False by linarith
qed

lemma ilog2_ge:
  assumes "0 < x" "2 powi k \<le> x"
  shows "k \<le> ilog2 x"
proof (rule ccontr)
  assume "\<not> k \<le> ilog2 x"
  then have "ilog2 x + 1 \<le> k" by simp
  then have "(2::rat) powi (ilog2 x + 1) \<le> 2 powi k" by (intro power_int_increasing) auto
  with ilog2_bounds(2)[OF assms(1)] assms(2) show False by linarith
qed

lemma round_to_exact:
  assumes x: "x = of_int m * 2 powi e" and m: "\<bar>m\<bar> < 2 ^ p" and e: "emin \<le> e"
  shows "round_to p emin x = x"
proof (cases "m = 0")
  case True
  then show ?thesis by (simp add: x round_to_def)
next
  case False
  then have x0: "x \<noteq> 0" by (simp add: x)
  let ?q = "max (ilog2 \<bar>x\<bar> - (int p - 1)) emin"
  have ax: "\<bar>x\<bar> = of_int \<bar>m\<bar> * 2 powi e" by (simp add: x abs_mult)
  have "(of_int \<bar>m\<bar> :: rat) < of_int (2 ^ p)" using m by (simp only: of_int_less_iff)
  then have "(of_int \<bar>m\<bar> :: rat) < 2 powi (int p)" by (simp add: power_int_def)
  then have "\<bar>x\<bar> < 2 powi (int p) * 2 powi e" unfolding ax by simp
  also have "\<dots> = 2 powi (int p + e)" by (simp add: power_int_add)
  finally have "ilog2 \<bar>x\<bar> < int p + e" using x0 by (intro ilog2_less) auto
  then have qe: "?q \<le> e" using e by simp
  have "x / 2 powi ?q = of_int m * 2 powi (e - ?q)"
    by (simp add: x power_int_diff)
  also have "\<dots> = of_int m * of_int (2 ^ nat (e - ?q))"
    using qe by (simp add: power_int_def)
  also have "\<dots> = of_int (m * 2 ^ nat (e - ?q))" by simp
  finally have "rne (x / 2 powi ?q) = m * 2 ^ nat (e - ?q)" by (simp only: rne_of_int)
  then have "of_int (rne (x / 2 powi ?q)) * 2 powi ?q
      = (of_int m :: rat) * (of_int (2 ^ nat (e - ?q)) * 2 powi ?q)" by simp
  also have "(of_int (2 ^ nat (e - ?q)) :: rat) = 2 powi (e - ?q)"
    using qe by (simp add: power_int_def)
  also have "(2::rat) powi (e - ?q) * 2 powi ?q = 2 powi e"
    by (simp add: power_int_add[symmetric])
  finally show ?thesis using x0 by (simp add: round_to_def Let_def x)
qed

lemma abs_scale:
  fixes a c x :: rat
  assumes "0 < c"
  shows "\<bar>a * c - x\<bar> = \<bar>a - x / c\<bar> * c"
proof -
  have "(a - x / c) * c = a * c - x" using assms by (simp add: field_simps)
  then have "\<bar>a * c - x\<bar> = \<bar>(a - x / c) * c\<bar>" by simp
  also have "\<dots> = \<bar>a - x / c\<bar> * \<bar>c\<bar>" by (rule abs_mult)
  finally show ?thesis using assms by simp
qed

lemma round_to_rel_error:
  assumes x: "0 < x" and normal: "2 powi (emin + int p - 1) \<le> x"
  shows "\<bar>round_to p emin x - x\<bar> \<le> x * 2 powi (- int p)"
proof -
  let ?e = "ilog2 x"
  have ax: "\<bar>x\<bar> = x" using x by simp
  have "emin + int p - 1 \<le> ilog2 x" using x normal by (rule ilog2_ge)
  then have q: "max (?e - (int p - 1)) emin = ?e - (int p - 1)" by simp
  let ?q = "?e - (int p - 1)"
  have r: "round_to p emin x = of_int (rne (x / 2 powi ?q)) * 2 powi ?q"
    using x by (simp add: round_to_def Let_def q ax)
  have "\<bar>of_int (rne (x / 2 powi ?q)) * 2 powi ?q - x\<bar>
      = \<bar>of_int (rne (x / 2 powi ?q)) - x / 2 powi ?q\<bar> * 2 powi ?q"
    by (rule abs_scale) simp
  also have "\<dots> \<le> 1 / 2 * 2 powi ?q"
    by (intro mult_right_mono rne_error) simp
  also have "\<dots> = 2 powi ?e * 2 powi (- int p)"
  proof -
    have "?q = ?e + (- int p) + 1" by simp
    then have "(2::rat) powi ?q = 2 powi (?e + (- int p) + 1)" by (rule arg_cong)
    also have "\<dots> = 2 powi (?e + (- int p)) * 2 powi 1"
      by (rule power_int_add) simp
    also have "(2::rat) powi (?e + (- int p)) = 2 powi ?e * 2 powi (- int p)"
      by (rule power_int_add) simp
    finally show ?thesis by simp
  qed
  also have "\<dots> \<le> x * 2 powi (- int p)"
    using ilog2_bounds(1)[OF x] by (intro mult_right_mono) simp_all
  finally show ?thesis by (simp add: r)
qed

lemma f64_rel_error:
  assumes "2 powi (- 1022) \<le> x"
  shows "\<bar>f64 x - x\<bar> \<le> x / 2 ^ 53"
proof -
  have pos: "0 < x" using assms pow2_pos[of "- 1022"] by linarith
  have "\<bar>round_to 53 (- 1074) x - x\<bar> \<le> x * 2 powi (- int 53)"
    using pos assms by (intro round_to_rel_error) simp_all
  then show ?thesis by (simp add: f64_def power_int_minus field_simps)
qed

lemma round_to_zero [simp]: "round_to p emin 0 = 0"
  by (simp add: round_to_def)

lemma rne_ge: "of_int n \<le> x \<Longrightarrow> n \<le> rne x"
proof -
  assume "of_int n \<le> x"
  then have "n \<le> \<lfloor>x\<rfloor>" by (simp add: le_floor_iff)
  moreover have "\<lfloor>x\<rfloor> \<le> rne x" by (simp add: rne_def Let_def)
  ultimately show ?thesis by linarith
qed

lemma round_to_form:
  assumes "x \<noteq> 0"
  shows "\<exists>m q. round_to p emin x = of_int m * 2 powi q \<and> \<bar>m\<bar> \<le> 2 ^ p \<and> emin \<le> q"
proof -
  let ?q = "max (ilog2 \<bar>x\<bar> - (int p - 1)) emin"
  let ?m = "rne (x / 2 powi ?q)"
  have ax: "0 < \<bar>x\<bar>" using assms by simp
  have "\<bar>x\<bar> < 2 powi (ilog2 \<bar>x\<bar> + 1)" by (rule ilog2_bounds(2)[OF ax])
  also have "(2::rat) powi (ilog2 \<bar>x\<bar> + 1) \<le> 2 powi (int p + ?q)"
    by (intro power_int_increasing) auto
  also have "\<dots> = 2 powi (int p) * 2 powi ?q" by (rule power_int_add) simp
  finally have "\<bar>x\<bar> / 2 powi ?q < 2 powi (int p)"
    by (simp add: field_simps)
  then have b: "\<bar>x / 2 powi ?q\<bar> < of_int (2 ^ p)"
    by (simp add: power_int_def)
  have "?m \<le> 2 ^ p" using b by (intro rne_le) linarith
  moreover have "- (2 ^ p) \<le> ?m"
  proof (rule rne_ge)
    have "- of_int (2 ^ p) \<le> x / 2 powi ?q" using b by linarith
    then show "of_int (- (2 ^ p)) \<le> x / 2 powi ?q" by simp
  qed
  ultimately have "\<bar>?m\<bar> \<le> 2 ^ p" by linarith
  moreover have "round_to p emin x = of_int ?m * 2 powi ?q"
    using assms by (simp add: round_to_def Let_def)
  moreover have "emin \<le> ?q" by simp
  ultimately show ?thesis by blast
qed

lemma round_to_idem:
  assumes "0 < p"
  shows "round_to p emin (round_to p emin x) = round_to p emin x"
proof (cases "x = 0")
  case True
  then show ?thesis by simp
next
  case False
  from round_to_form[OF False, of p emin] obtain m q where
    r: "round_to p emin x = of_int m * 2 powi q" and m: "\<bar>m\<bar> \<le> 2 ^ p" and q: "emin \<le> q"
    by blast
  show ?thesis
  proof (cases "\<bar>m\<bar> < 2 ^ p")
    case True
    then show ?thesis using r q by (intro round_to_exact[of _ m q]) auto
  next
    case False
    with m have am: "\<bar>m\<bar> = 2 ^ p" by simp
    obtain k where p: "p = Suc k" using assms by (cases p) auto
    define m' where "m' = (if 0 \<le> m then 2 ^ k else - (2 ^ k) :: int)"
    have mm: "m = m' * 2" using am by (auto simp: m'_def p abs_if split: if_splits)
    have "round_to p emin x = of_int m' * (2 * 2 powi q)" by (simp add: r mm)
    also have "2 * (2::rat) powi q = 2 powi (q + 1)" by (simp add: power_int_add)
    finally have r': "round_to p emin x = of_int m' * 2 powi (q + 1)" .
    have "\<bar>m'\<bar> < 2 ^ p" by (simp add: m'_def p)
    then show ?thesis using r' q by (intro round_to_exact[of _ m' "q + 1"]) auto
  qed
qed

lemma f32_idem [simp]: "f32 (f32 x) = f32 x"
  by (simp add: f32_def round_to_idem)

lemma f16_idem [simp]: "f16 (f16 x) = f16 x"
  by (simp add: f16_def round_to_idem)

lemma f64_idem [simp]: "f64 (f64 x) = f64 x"
  by (simp add: f64_def round_to_idem)

lemma f32_one [simp]: "f32 1 = 1"
  using round_to_exact[of 1 1 0 24 "- 149"] by (simp add: f32_def)

lemma f64_one [simp]: "f64 1 = 1"
  using round_to_exact[of 1 1 0 53 "- 1074"] by (simp add: f64_def)

lemma f32_int_half:
  assumes "\<bar>k\<bar> < 2 ^ 22"
  shows "f32 (of_int k) = of_int k" "f32 (of_int k + 1 / 2) = of_int k + 1 / 2"
proof -
  have "\<bar>k\<bar> < 2 ^ 24" using assms by simp
  then have "round_to 24 (- 149) (of_int k * 2 powi 0) = of_int k * 2 powi 0"
    by (intro round_to_exact[of _ k 0]) auto
  then show "f32 (of_int k) = of_int k" by (simp add: f32_def)
  have "\<bar>2 * k + 1\<bar> < 2 ^ 24" using assms by simp
  then have "round_to 24 (- 149) (of_int (2 * k + 1) * 2 powi (- 1))
      = of_int (2 * k + 1) * 2 powi (- 1)"
    by (intro round_to_exact[of _ "2 * k + 1" "- 1"]) auto
  moreover have "(of_int (2 * k + 1) :: rat) * 2 powi (- 1) = of_int k + 1 / 2"
    by (simp add: power_int_minus field_simps)
  ultimately have "round_to 24 (- 149) (of_int k + 1 / 2) = of_int k + 1 / 2"
    by (simp only:)
  then show "f32 (of_int k + 1 / 2) = of_int k + 1 / 2" by (simp only: f32_def)
qed

subsection \<open>Resizing\<close>



lemma new_dim_zero [simp]: "new_dim r h w 0 = 0"
  using rne_of_int[of 0] by (simp add: new_dim_def f64_def)






lemma load_image_unresized:
  assumes "load_image fs ds name = Inr d" "resize_max (ds_conf ds) = None"
  shows "img_w (d_image d) = fst (original_size d)" "img_h (d_image d) = snd (original_size d)"
  using assms
  by (auto simp: load_image_def resize_image_def split: option.splits sum.splits)

subsection \<open>Array elements\<close>

lemma rne_abs_le: "\<bar>of_int (rne x) :: rat\<bar> \<le> 2 * \<bar>x\<bar>"
proof (cases "\<bar>x\<bar> < 1 / 2")
  case True
  then have "\<bar>x - of_int 0\<bar> < 1 / 2" by simp
  then have "rne x = 0" by (rule rne_near)
  then show ?thesis by simp
next
  case False
  have "\<bar>of_int (rne x) - x\<bar> \<le> 1 / 2" by (rule rne_error)
  then have "\<bar>of_int (rne x) :: rat\<bar> \<le> \<bar>x\<bar> + 1 / 2" by linarith
  with False show ?thesis by linarith
qed

lemma round_to_abs_le: "\<bar>round_to p emin x\<bar> \<le> 2 * \<bar>x\<bar>"
proof (cases "x = 0")
  case True
  then show ?thesis by simp
next
  case False
  define q where "q = max (ilog2 \<bar>x\<bar> - (int p - 1)) emin"
  have r: "round_to p emin x = of_int (rne (x / 2 powi q)) * 2 powi q"
    using False by (simp add: round_to_def q_def Let_def)
  have pos: "0 < (2::rat) powi q" by simp
  have "\<bar>of_int (rne (x / 2 powi q)) :: rat\<bar> \<le> 2 * \<bar>x / 2 powi q\<bar>" by (rule rne_abs_le)
  then have "\<bar>of_int (rne (x / 2 powi q)) :: rat\<bar> * 2 powi q \<le> 2 * \<bar>x / 2 powi q\<bar> * 2 powi q"
    using pos by (intro mult_right_mono) simp_all
  also have "2 * \<bar>x / 2 powi q\<bar> * 2 powi q = 2 * \<bar>x\<bar>"
    using pos by (simp add: abs_divide abs_of_pos)
  finally show ?thesis using pos by (simp add: r abs_mult abs_of_pos)
qed

lemma finite_or_inf_Num: "\<bar>y\<bar> \<le> m \<Longrightarrow> finite_or_inf m y = Num y"
  by (auto simp: finite_or_inf_def)

lemma finite_or_inf_idem:
  assumes "\<And>z. f (f z) = f z"
  shows "(case finite_or_inf m (f x) of Num y \<Rightarrow> finite_or_inf m (f y) | v \<Rightarrow> v)
           = finite_or_inf m (f x)"
  by (simp add: finite_or_inf_def assms)

lemma fl_idem [simp]: "fl dt (fl dt v) = fl dt v"
proof (cases v)
  case (Num x)
  show ?thesis
  proof (cases dt)
    case Float16
    then show ?thesis using Num by (simp add: finite_or_inf_def)
  next
    case Float32
    then show ?thesis using Num by (simp add: finite_or_inf_def)
  next
    case Float64
    then show ?thesis using Num by (simp add: finite_or_inf_def)
  next
    case Int32
    then show ?thesis by simp
  next
    case Int64
    then show ?thesis by simp
  qed
qed (cases dt; simp)+

lemma fl_inf [simp]: "fl dt PosInf = PosInf" "fl dt NegInf = NegInf" "fl dt NaN = NaN"
  by (cases dt; simp)+

lemma fl32_exact:
  "f32 x = x \<Longrightarrow> \<bar>x\<bar> \<le> (2 ^ 24 - 1) * 2 ^ 104 \<Longrightarrow> fl Float32 (Num x) = Num x"
  by (simp add: finite_or_inf_Num)

lemma fl32_bound:
  assumes "\<bar>x\<bar> \<le> 2 ^ 126"
  shows "fl Float32 (Num x) = Num (f32 x)"
proof -
  have "\<bar>f32 x\<bar> \<le> 2 * \<bar>x\<bar>" unfolding f32_def by (rule round_to_abs_le)
  also have "\<dots> \<le> 2 * 2 ^ 126" using assms by simp
  also have "\<dots> \<le> (2 ^ 24 - 1) * 2 ^ 104" by simp
  finally show ?thesis by (simp add: finite_or_inf_Num)
qed

lemma fl64_bound:
  assumes "\<bar>x\<bar> \<le> 2 ^ 1022"
  shows "fl Float64 (Num x) = Num (f64 x)"
proof -
  have "\<bar>f64 x\<bar> \<le> 2 * \<bar>x\<bar>" unfolding f64_def by (rule round_to_abs_le)
  also have "\<dots> \<le> 2 * 2 ^ 1022" using assms by simp
  also have "\<dots> \<le> (2 ^ 53 - 1) * 2 ^ 971" by simp
  finally show ?thesis by (simp add: finite_or_inf_Num)
qed

lemma fl16_bound:
  assumes "\<bar>x\<bar> \<le> 2 ^ 14"
  shows "fl Float16 (Num x) = Num (f16 x)"
proof -
  have "\<bar>f16 x\<bar> \<le> 2 * \<bar>x\<bar>" unfolding f16_def by (rule round_to_abs_le)
  also have "\<dots> \<le> 2 * 2 ^ 14" using assms by simp
  also have "\<dots> \<le> 65504" by simp
  finally show ?thesis by (simp add: finite_or_inf_Num)
qed

lemma fmul_one [simp]: "fmul v (Num 1) = v"
  by (cases v) (simp_all add: Let_def)

lemma add_const_inv [simp]: "add_const (- c) (add_const c v) = v"
  by (cases v) simp_all

lemma mul_elem_one [simp]: "mul_elem dt (Num 1) v = fl dt v"
  by (simp add: mul_elem_def)

lemma f64_nat:
  assumes "a < 2 ^ 53"
  shows "f64 (of_nat a) = of_nat a"
proof -
  have "\<bar>int a\<bar> < 2 ^ 53" using assms by simp
  from round_to_exact[of "of_nat a" "int a" 0 53 "- 1074", OF _ this]
  show ?thesis by (simp add: f64_def)
qed

lemma f64_pos:
  assumes "1 \<le> x"
  shows "0 < f64 x"
proof -
  have "(2::rat) powi (- 1022) \<le> 1" by (simp add: power_int_minus field_simps)
  then have "2 powi (- 1022) \<le> x" using assms by linarith
  then have "\<bar>f64 x - x\<bar> \<le> x / 2 ^ 53" by (rule f64_rel_error)
  moreover have "x / 2 ^ 53 < x" using assms by (simp add: field_simps)
  ultimately show ?thesis by linarith
qed

lemma size_ratio_same:
  assumes "0 < a"
  shows "size_ratio a a = Num 1"
proof -
  have "0 < f64 (of_nat a)" using assms by (intro f64_pos) simp
  then have "f64 (of_nat a) / f64 (of_nat a) = 1" by simp
  then show ?thesis using assms by (simp add: size_ratio_def finite_or_inf_Num)
qed

lemma size_ratio_finite:
  assumes "0 < b" "a < 2 ^ 53" "b < 2 ^ 53"
  shows "size_ratio a b = Num (f64 (of_nat a / of_nat b))"
    and "fl Float32 (size_ratio a b) = Num (f32 (f64 (of_nat a / of_nat b)))"
proof -
  let ?x = "(of_nat a / of_nat b) :: rat"
  have b1: "(1::rat) \<le> of_nat b" using assms(1) by simp
  have "(of_nat a :: rat) < of_nat (2 ^ 53)" using assms(2) by (simp only: of_nat_less_iff)
  then have a53: "(of_nat a :: rat) < 2 ^ 53" by simp
  have x0: "0 \<le> ?x" by simp
  have "?x * 1 \<le> ?x * of_nat b" using b1 x0 by (intro mult_left_mono)
  moreover have "?x * of_nat b = of_nat a" using assms(1) by simp
  ultimately have "?x \<le> of_nat a" by simp
  then have x53: "?x \<le> 2 ^ 53" using a53 by linarith
  then have "\<bar>?x\<bar> \<le> 2 ^ 1022"
  proof -
    have "(2::rat) ^ 53 \<le> 2 ^ 1022" by (intro power_increasing) simp_all
    with x53 x0 show ?thesis by simp
  qed
  then have r: "fl Float64 (Num ?x) = Num (f64 ?x)" by (rule fl64_bound)
  show s: "size_ratio a b = Num (f64 ?x)"
    using assms r by (simp add: size_ratio_def f64_nat)
  have "\<bar>f64 ?x\<bar> \<le> 2 * \<bar>?x\<bar>" unfolding f64_def by (rule round_to_abs_le)
  also have "\<dots> \<le> 2 * 2 ^ 53" using x53 x0 by simp
  also have "\<dots> \<le> 2 ^ 126" by simp
  finally have "fl Float32 (Num (f64 ?x)) = Num (f32 (f64 ?x))" by (rule fl32_bound)
  then show "fl Float32 (size_ratio a b) = Num (f32 (f64 ?x))" by (simp add: s)
qed

lemma fl32_int_half:
  assumes "\<bar>k\<bar> < 2 ^ 22"
  shows "fl Float32 (Num (of_int k)) = Num (of_int k)"
    "fl Float32 (Num (of_int k + 1 / 2)) = Num (of_int k + 1 / 2)"
proof -
  have "(of_int \<bar>k\<bar> :: rat) < of_int (2 ^ 22)" using assms by (simp only: of_int_less_iff)
  then have k: "\<bar>of_int k :: rat\<bar> < 2 ^ 22" by simp
  have "(2::rat) ^ 22 + 1 \<le> 2 ^ 126" by simp
  with k have "\<bar>of_int k :: rat\<bar> \<le> 2 ^ 126" "\<bar>of_int k + 1 / 2 :: rat\<bar> \<le> 2 ^ 126" by linarith+
  then show "fl Float32 (Num (of_int k)) = Num (of_int k)"
    "fl Float32 (Num (of_int k + 1 / 2)) = Num (of_int k + 1 / 2)"
    using f32_int_half[OF assms] by (simp_all add: fl32_bound del: fl.simps)
qed

subsection \<open>Postprocessing\<close>

lemma length_per_axis [simp]: "length (per_axis fx fy xs) = length xs"
  by (induction fx fy xs rule: per_axis.induct) auto

lemma nth_per_axis:
  "i < length xs \<Longrightarrow> per_axis fx fy xs ! i = (if even i then fx (xs ! i) else fy (xs ! i))"
proof (induction fx fy xs arbitrary: i rule: per_axis.induct)
  case (1 fx fy x y rest)
  show ?case
  proof (cases i)
    case 0
    then show ?thesis by simp
  next
    case (Suc j)
    show ?thesis
    proof (cases j)
      case 0
      with Suc show ?thesis by simp
    next
      case (Suc k)
      with \<open>i = Suc j\<close> 1 show ?thesis by simp
    qed
  qed
next
  case (2 fx fy x)
  then show ?case by simp
next
  case (3 fx fy)
  then show ?case by simp
qed

lemma per_axis_same: "per_axis f f xs = map f xs"
  by (induction f f xs rule: per_axis.induct) auto

lemma map_per_axis: "map g (per_axis fx fy xs) = per_axis (\<lambda>v. g (fx v)) (\<lambda>v. g (fy v)) xs"
  by (induction fx fy xs rule: per_axis.induct) auto

lemma per_axis_map: "per_axis fx fy (map g xs) = per_axis (\<lambda>v. fx (g v)) (\<lambda>v. fy (g v)) xs"
  by (induction xs rule: induct_list012) auto

lemma per_axis_cong:
  "(\<And>v. v \<in> set xs \<Longrightarrow> fx v = gx v \<and> fy v = gy v) \<Longrightarrow> per_axis fx fy xs = per_axis gx gy xs"
  by (induction fx fy xs rule: per_axis.induct) auto

lemma with_float32_float [simp]: "with_float (with_float32 dt) = with_float32 dt"
  by (cases dt) simp_all

text \<open>the rescaling of an array of points\<close>
lemma rescale_points:
  assumes kp: "p ''keypoints'' = Some kp" "shape kp \<noteq> []" "last (shape kp) = 2"
  shows "rescale_keypoints d p =
     Inr (p(''keypoints'' \<mapsto>
            \<lparr>dtype = with_float32 (with_float (dtype kp)),
             shape = (if length (shape kp) = 1 then [1, 2] else shape kp),
             vals = per_axis (rescaled_coord (dtype kp) (fst (scales_of d)))
                      (rescaled_coord (dtype kp) (snd (scales_of d))) (vals kp)\<rparr>))"
proof -
  let ?dt1 = "with_float (dtype kp)"
  let ?dt2 = "with_float32 ?dt1"
  let ?sh = "if length (shape kp) = 1 then [1, 2] else shape kp"
  have m: "mul_scales (kp\<lparr>dtype := ?dt1, vals := map (add_elem ?dt1 (1 / 2)) (vals kp)\<rparr>) (scales_of d) =
      Inr \<lparr>dtype = ?dt2, shape = ?sh,
           vals = per_axis (\<lambda>v. mul_elem ?dt2 (fst (scales_of d)) (add_elem ?dt1 (1 / 2) v))
                    (\<lambda>v. mul_elem ?dt2 (snd (scales_of d)) (add_elem ?dt1 (1 / 2) v)) (vals kp)\<rparr>"
  proof (cases "length (shape kp) = 1")
    case True
    then show ?thesis using kp(2,3) by (simp add: mul_scales_def Let_def per_axis_map)
  next
    case False
    with kp(2) have long: "\<not> length (shape kp) \<le> 1" by (cases "shape kp") auto
    have "butlast (shape kp) @ [2] = shape kp"
      using kp(2,3) append_butlast_last_id[of "shape kp"] by simp
    then show ?thesis using kp(2,3) long False by (simp add: mul_scales_def Let_def per_axis_map)
  qed
  have a: "add_scalar (1 / 2) kp = kp\<lparr>dtype := ?dt1, vals := map (add_elem ?dt1 (1 / 2)) (vals kp)\<rparr>"
    by (simp add: add_scalar_def Let_def)
  have s: "add_scalar (- (1 / 2)) \<lparr>dtype = ?dt2, shape = sh,
           vals = per_axis (\<lambda>v. mul_elem ?dt2 (fst (scales_of d)) (add_elem ?dt1 (1 / 2) v))
                    (\<lambda>v. mul_elem ?dt2 (snd (scales_of d)) (add_elem ?dt1 (1 / 2) v)) (vals kp)\<rparr>
      = \<lparr>dtype = ?dt2, shape = sh,
         vals = per_axis (rescaled_coord (dtype kp) (fst (scales_of d)))
                      (rescaled_coord (dtype kp) (snd (scales_of d))) (vals kp)\<rparr>" for sh
    by (simp add: add_scalar_def Let_def map_per_axis rescaled_coord_def[abs_def])
  show ?thesis
    by (simp add: rescale_keypoints_def kp(1) a m s)
qed

lemma rescaled_coord_f32:
  assumes k: "f32 k = k" "\<bar>k\<bar> \<le> 2 ^ 64" and s: "\<bar>s\<bar> \<le> 2 ^ 32"
  shows "rescaled_coord Float32 (Num s) (Num k)
           = Num (f32 (f32 (f32 (k + 1 / 2) * s) - 1 / 2))"
proof -
  define a where "a = f32 (k + 1 / 2)"
  define b where "b = f32 (a * s)"
  have p: "(2::rat) ^ 64 + 1 \<le> 2 ^ 65" "(2::rat) ^ 66 \<le> 2 ^ 126" "(2::rat) ^ 98 \<le> 2 ^ 126"
    "(2::rat) ^ 99 + 1 \<le> 2 ^ 126" "(2::rat) ^ 64 \<le> 2 ^ 126" "(2::rat) ^ 65 \<le> 2 ^ 126"
    by simp_all
  have k1: "\<bar>k\<bar> \<le> 2 ^ 126" using k(2) p(5) by linarith
  have k2: "\<bar>k + 1 / 2\<bar> \<le> 2 ^ 65" using k(2) p(1) by linarith
  then have k3: "\<bar>k + 1 / 2\<bar> \<le> 2 ^ 126" using p(6) by linarith
  have "\<bar>a\<bar> \<le> 2 * \<bar>k + 1 / 2\<bar>" unfolding a_def f32_def by (rule round_to_abs_le)
  then have a1: "\<bar>a\<bar> \<le> 2 ^ 66" using k2 by simp
  then have a2: "\<bar>a\<bar> \<le> 2 ^ 126" using p(2) by linarith
  have "\<bar>a * s\<bar> \<le> 2 ^ 66 * 2 ^ 32"
    unfolding abs_mult using a1 s by (intro mult_mono) simp_all
  then have as1: "\<bar>a * s\<bar> \<le> 2 ^ 98" by simp
  then have as2: "\<bar>a * s\<bar> \<le> 2 ^ 126" using p(3) by linarith
  have "\<bar>b\<bar> \<le> 2 * \<bar>a * s\<bar>" unfolding b_def f32_def by (rule round_to_abs_le)
  then have b1: "\<bar>b\<bar> \<le> 2 ^ 99" using as1 by simp
  then have b2: "\<bar>b\<bar> \<le> 2 ^ 126" "\<bar>b - 1 / 2\<bar> \<le> 2 ^ 126" using p(4) by linarith+
  have fa: "f32 a = a" by (simp add: a_def)
  have fb: "f32 b = b" by (simp add: b_def)
  have 1: "add_elem Float32 (1 / 2) (Num k) = Num a"
    unfolding add_elem_def fl32_bound[OF k1] k(1) add_const.simps fl32_bound[OF k3] a_def ..
  have 2: "mul_elem Float32 (Num s) (Num a) = Num b"
    unfolding mul_elem_def fl32_bound[OF a2] fa fmul.simps fl32_bound[OF as2] b_def ..
  have 3: "add_elem Float32 (- (1 / 2)) (Num b) = Num (f32 (b - 1 / 2))"
    unfolding add_elem_def fl32_bound[OF b2(1)] fb add_const.simps
    using fl32_bound[OF b2(2)] by simp
  show ?thesis
    by (simp add: rescaled_coord_def 1 2 3 del: fl.simps) (simp add: a_def b_def)
qed

lemma postprocess_image_size:
  assumes "postprocess as_half d p0 = Inr p"
  shows "p ''image_size'' = Some (image_size_array d)"
proof -
  from assms obtain p1 where
    r: "rescale_keypoints d (p0(''image_size'' \<mapsto> image_size_array d)) = Inr p1"
    and p: "p = downcast as_half p1"
    by (auto simp: postprocess_def split: sum.splits)
  from r have "p1 ''image_size'' = Some (image_size_array d)"
    by (auto simp: rescale_keypoints_def split: option.splits sum.splits)
  then show ?thesis
    by (simp add: p downcast_def half_field_def image_size_array_def)
qed

lemma load_image_original_size:
  assumes "load_image fs ds name = Inr d"
    and "read_image fs (ds_root ds) name (grayscale (ds_conf ds)) = Some (h, w)"
  shows "original_size d = (w, h)"
  using assms by (auto simp: load_image_def split: sum.splits)

lemma scales_same:
  assumes "img_w (d_image d) = fst (original_size d)" "img_h (d_image d) = snd (original_size d)"
    "0 < fst (original_size d)" "0 < snd (original_size d)"
  shows "scales_of d = (Num 1, Num 1)"
  using assms by (simp add: scales_of_def size_ratio_same finite_or_inf_Num)

lemma half_field_dtype:
  "dtype (half_field a) = (if dtype a = Float32 then Float16 else dtype a)"
  by (simp add: half_field_def astype_def)

lemma half_field_other: "dtype a \<noteq> Float32 \<Longrightarrow> half_field a = a"
  by (simp add: half_field_def)

lemma rescale_keeps_other:
  assumes "rescale_keypoints d p = Inr q" "k \<noteq> ''keypoints''"
  shows "q k = p k"
  using assms by (auto simp: rescale_keypoints_def split: option.splits sum.splits)

text \<open>without resizing, a coordinate \<open>k\<close> with \<open>k + 0.5\<close> in the format comes back\<close>
lemma rescaled_coord_one:
  assumes "fl Float32 v = v" "fl Float32 (add_const (1 / 2) v) = add_const (1 / 2) v"
  shows "rescaled_coord Float32 (Num 1) v = v"
  using assms by (simp add: rescaled_coord_def add_elem_def del: fl.simps)

subsection \<open>The concrete run\<close>

lemma ex_init: "ImageDataset_init ex_fs [''images''] (preprocessing ex_conf) PathsNone = Inr ex_ds"
  by (simp add: ImageDataset_init_def ex_fs_def ex_conf_def ex_prep_def ex_ds_def merge_conf_def
      default_conf_def glob_paths_def as_posix_def)

lemma ex_fp: "resolve_feature_path ex_conf (Some [''out'']) None = Inr [''out'', ''feats.h5'']"
  by (simp add: resolve_feature_path_def ex_conf_def path_join_def path_parts_def)

lemma ex_new_dims:
  "new_dim 80 50 100 50 = 40" "new_dim 80 50 100 100 = 80"
  "new_dim 80 100 50 100 = 80" "new_dim 80 100 50 50 = 40"
  by code_simp+

lemma ex_load_a:
  "load_image ex_fs ex_ds ''a.jpg'' =
     Inr \<lparr>d_name = ''a.jpg'',
          d_image = \<lparr>img_h = 40, img_w = 80, pix = Resized (Decoded ''a.jpg'' True) 80 40\<rparr>,
          original_size = (100, 50)\<rparr>"
  by (simp add: load_image_def ex_fs_def ex_ds_def resize_image_def ex_new_dims)

lemma ex_load_b:
  "load_image ex_fs ex_ds ''b.png'' =
     Inr \<lparr>d_name = ''b.png'',
          d_image = \<lparr>img_h = 80, img_w = 40, pix = Resized (Decoded ''b.png'' True) 40 80\<rparr>,
          original_size = (50, 100)\<rparr>"
  by (simp add: load_image_def ex_fs_def ex_ds_def resize_image_def ex_new_dims)

lemma ex_scales_b:
  "scales_of \<lparr>d_name = n,
          d_image = \<lparr>img_h = 80, img_w = 40, pix = px\<rparr>,
          original_size = (50, 100)\<rparr> = (Num (5 / 4), Num (5 / 4))"
proof -
  have "fl Float32 (size_ratio 50 40) = Num (5 / 4)" "fl Float32 (size_ratio 100 80) = Num (5 / 4)"
    by code_simp+
  then show ?thesis by (simp add: scales_of_def)
qed

lemma ex_scales_a:
  "scales_of \<lparr>d_name = n,
          d_image = \<lparr>img_h = 40, img_w = 80, pix = px\<rparr>,
          original_size = (100, 50)\<rparr> = (Num (5 / 4), Num (5 / 4))"
proof -
  have "fl Float32 (size_ratio 50 40) = Num (5 / 4)" "fl Float32 (size_ratio 100 80) = Num (5 / 4)"
    by code_simp+
  then show ?thesis by (simp add: scales_of_def)
qed

lemma ex_rescale:
  "mul_scales (add_scalar (1 / 2) \<lparr>dtype = Float32, shape = [2, 2],
        vals = [Num 10, Num 20, Num 30, Num 8]\<rparr>) (Num (5 / 4), Num (5 / 4))
     = Inr \<lparr>dtype = Float32, shape = [2, 2],
            vals = [Num (105 / 8), Num (205 / 8), Num (305 / 8), Num (85 / 8)]\<rparr>"
  "add_scalar (- (1 / 2)) \<lparr>dtype = Float32, shape = [2, 2],
        vals = [Num (105 / 8), Num (205 / 8), Num (305 / 8), Num (85 / 8)]\<rparr>
     = \<lparr>dtype = Float32, shape = [2, 2],
        vals = [Num (101 / 8), Num (201 / 8), Num (301 / 8), Num (81 / 8)]\<rparr>"
  by code_simp+

lemma ex_rescale_pred:
  assumes "scales_of d = (Num (5 / 4), Num (5 / 4))"
  shows "rescale_keypoints d (ex_pred(''image_size'' \<mapsto> a))
           = Inr (ex_pred(''image_size'' \<mapsto> a,
                  ''keypoints'' \<mapsto> \<lparr>dtype = Float32, shape = [2, 2],
                     vals = [Num (101 / 8), Num (201 / 8), Num (301 / 8), Num (81 / 8)]\<rparr>))"
  unfolding rescale_keypoints_def assms by (simp add: ex_pred_def ex_rescale)

lemma ex_extract_b:
  "extract_one ex_fs ex_ds ex_model False ''b.png'' = Inr ex_stored"
proof -
  have "ex_pred(''image_size'' \<mapsto> \<lparr>dtype = Int64, shape = [2], vals = [Num 50, Num 100]\<rparr>,
                  ''keypoints'' \<mapsto> \<lparr>dtype = Float32, shape = [2, 2],
                     vals = [Num (101 / 8), Num (201 / 8), Num (301 / 8), Num (81 / 8)]\<rparr>)
        = ex_stored"
    by (rule ext) (simp add: ex_stored_def ex_pred_def)
  then show ?thesis
    unfolding extract_one_def ex_load_b ex_model_def
    by (simp add: postprocess_def downcast_def image_size_array_def
        ex_rescale_pred[OF ex_scales_b])
qed

lemma ex_extract_a:
  "extract_one ex_fs ex_ds ex_model False ''a.jpg'' = Inr ex_stored_a"
proof -
  have "ex_pred(''image_size'' \<mapsto> \<lparr>dtype = Int64, shape = [2], vals = [Num 100, Num 50]\<rparr>,
                  ''keypoints'' \<mapsto> \<lparr>dtype = Float32, shape = [2, 2],
                     vals = [Num (101 / 8), Num (201 / 8), Num (301 / 8), Num (81 / 8)]\<rparr>)
        = ex_stored_a"
    by (rule ext) (simp add: ex_stored_a_def ex_pred_def)
  then show ?thesis
    unfolding extract_one_def ex_load_a ex_model_def
    by (simp add: postprocess_def downcast_def image_size_array_def
        ex_rescale_pred[OF ex_scales_a])
qed


lemma ex_plain_stored: "plain_result (Inr ex_stored)" "plain_result (Inr ex_stored_a)"
  by (auto simp: plain_result_def ex_stored_def ex_stored_a_def link_name_def split: if_splits)


lemma ex_names: "names ex_ds = [''a.jpg'', ''b.png'']"
  by (simp add: ex_ds_def)

lemma ex_world_store: "store_at ex_world p = []"
  by (simp add: store_at_def ex_world_def)

lemma ex_extractable_all:
  "extractable ex_fs ex_ds ex_model False (store_at ex_world [''out'', ''feats.h5''])
     (names ex_ds)"
  by (simp add: extractable_def ex_world_store ex_names ex_load_a ex_load_b ex_extract_a
      ex_extract_b ex_plain_stored h5_path_def unrelated_def)

lemma ex_init_dup:
  "ImageDataset_init ex_fs [''images''] (preprocessing ex_conf) ex_dup
     = Inr (ex_ds\<lparr>names := [''b.png'', ''b.png'']\<rparr>)"
  by (simp add: ImageDataset_init_def ex_fs_def ex_conf_def ex_prep_def ex_ds_def merge_conf_def
      default_conf_def checked_names_def as_posix_def ex_dup_def)





section \<open>Claims\<close>

subsection \<open>C1: resumability and idempotence\<close>




subsection \<open>C2: keypoint rescaling\<close>

text \<open>
  C2 as stated fails when half precision is requested: the keypoints that are stored
  are the float16 roundings of the rescaled ones. With both scales 5/4, the coordinate
  2047 is rescaled to \<open>(2047 + 1/2) * 5/4 - 1/2 = 20471/8\<close>, a float32 number, and 2558
  is stored. It also fails for a \<^verbatim>\<open>keypoints\<close> array whose last dimension is neither 1
  nor 2: the product with the two scales cannot be broadcast, the run raises and
  nothing is stored.
\<close>

theorem half_keypoints_rounded:
  "scales_of ex_data_b = (Num (5 / 4), Num (5 / 4))
   \<and> postprocess True ex_data_b [''keypoints'' \<mapsto> ex_far]
        = Inr [''image_size'' \<mapsto> image_size_array ex_data_b,
               ''keypoints'' \<mapsto> \<lparr>dtype = Float16, shape = [2, 2],
                  vals = [Num 2558, Num (81 / 8), Num (101 / 8), Num (201 / 8)]\<rparr>]
   \<and> rescaled_coord Float32 (Num (5 / 4)) (Num 2047) = Num (20471 / 8)
   \<and> (2047 + 1 / 2) * (5 / 4) - 1 / 2 = (20471 / 8 :: rat)
   \<and> postprocess False ex_data_b [''keypoints'' \<mapsto> ex_triples] = Inl BroadcastError"
proof -
  have s: "scales_of ex_data_b = (Num (5 / 4), Num (5 / 4))"
    unfolding ex_data_b_def by (rule ex_scales_b)
  have m: "mul_scales (add_scalar (1 / 2) ex_far) (Num (5 / 4), Num (5 / 4))
      = Inr \<lparr>dtype = Float32, shape = [2, 2],
            vals = [Num (20475 / 8), Num (85 / 8), Num (105 / 8), Num (205 / 8)]\<rparr>"
    by code_simp
  have a: "add_scalar (- (1 / 2)) \<lparr>dtype = Float32, shape = [2, 2],
            vals = [Num (20475 / 8), Num (85 / 8), Num (105 / 8), Num (205 / 8)]\<rparr>
      = \<lparr>dtype = Float32, shape = [2, 2],
            vals = [Num (20471 / 8), Num (81 / 8), Num (101 / 8), Num (201 / 8)]\<rparr>"
    by code_simp
  have h: "half_field \<lparr>dtype = Float32, shape = [2, 2],
            vals = [Num (20471 / 8), Num (81 / 8), Num (101 / 8), Num (201 / 8)]\<rparr>
      = \<lparr>dtype = Float16, shape = [2, 2],
            vals = [Num 2558, Num (81 / 8), Num (101 / 8), Num (201 / 8)]\<rparr>"
    by code_simp
  have r: "rescale_keypoints ex_data_b
        ([''keypoints'' \<mapsto> ex_far](''image_size'' \<mapsto> image_size_array ex_data_b))
      = Inr ([''keypoints'' \<mapsto> ex_far](''image_size'' \<mapsto> image_size_array ex_data_b,
              ''keypoints'' \<mapsto> \<lparr>dtype = Float32, shape = [2, 2],
                vals = [Num (20471 / 8), Num (81 / 8), Num (101 / 8), Num (201 / 8)]\<rparr>))"
    unfolding rescale_keypoints_def s by (simp add: m a)
  have d: "downcast True [''image_size'' \<mapsto> image_size_array ex_data_b,
              ''keypoints'' \<mapsto> \<lparr>dtype = Float32, shape = [2, 2],
                vals = [Num (20471 / 8), Num (81 / 8), Num (101 / 8), Num (201 / 8)]\<rparr>]
      = [''image_size'' \<mapsto> image_size_array ex_data_b,
               ''keypoints'' \<mapsto> \<lparr>dtype = Float16, shape = [2, 2],
                  vals = [Num 2558, Num (81 / 8), Num (101 / 8), Num (201 / 8)]\<rparr>]"
    by (rule ext) (simp add: downcast_def h, simp add: half_field_def image_size_array_def)
  have p: "postprocess True ex_data_b [''keypoints'' \<mapsto> ex_far]
        = Inr [''image_size'' \<mapsto> image_size_array ex_data_b,
               ''keypoints'' \<mapsto> \<lparr>dtype = Float16, shape = [2, 2],
                  vals = [Num 2558, Num (81 / 8), Num (101 / 8), Num (201 / 8)]\<rparr>]"
    unfolding postprocess_def r by (simp add: d)
  have c: "rescaled_coord Float32 (Num (5 / 4)) (Num 2047) = Num (20471 / 8)"
    by code_simp
  have b: "postprocess False ex_data_b [''keypoints'' \<mapsto> ex_triples] = Inl BroadcastError"
    by (simp add: postprocess_def rescale_keypoints_def mul_scales_def add_scalar_def
        ex_triples_def Let_def)
  from s p c b show ?thesis by simp
qed

text \<open>
  C2, amended (keypoint rescaling). The record returned by the postprocessing always has
  the field \<^verbatim>\<open>image_size\<close>, an int64 array holding the (width, height) of the image as
  decoded, before any resizing. A \<^verbatim>\<open>keypoints\<close> array of points (last dimension 2) is
  replaced by the array of \<^verbatim>\<open>(k + 0.5) * scale - 0.5\<close>, with the scale of the axis of
  each coordinate and every operation in the arithmetic of numpy: for a float32 array
  three float32 operations, each rounded. The scales are
  \<^verbatim>\<open>original_size / processed_size\<close> per axis in (width, height) order, divided in
  double precision and then cast to float32. What is stored is this array, after the
  cast to float16 when half precision is requested and the array is float32. Without a
  \<^verbatim>\<open>keypoints\<close> field only \<^verbatim>\<open>image_size\<close> is added; with a \<^verbatim>\<open>keypoints\<close> array whose last
  dimension is neither 1 nor 2 the postprocessing raises.
\<close>

theorem keypoints_rescaled:
  assumes kp: "p0 ''keypoints'' = Some kp" "shape kp \<noteq> []" "last (shape kp) = 2"
  shows "(\<exists>kp'. (\<forall>as_half. postprocess as_half d p0
                     = Inr (downcast as_half
                         (p0(''image_size'' \<mapsto> image_size_array d, ''keypoints'' \<mapsto> kp'))))
          \<and> dtype kp' = with_float32 (with_float (dtype kp))
          \<and> shape kp' = (if length (shape kp) = 1 then [1, 2] else shape kp)
          \<and> length (vals kp') = length (vals kp)
          \<and> (\<forall>i<length (vals kp).
                vals kp' ! i = rescaled_coord (dtype kp)
                  (if even i then fst (scales_of d) else snd (scales_of d)) (vals kp ! i))
          \<and> (\<forall>as_half.
                downcast as_half
                  (p0(''image_size'' \<mapsto> image_size_array d, ''keypoints'' \<mapsto> kp')) ''keypoints''
                = Some (if as_half \<and> dtype kp' = Float32 then astype Float16 kp' else kp')))
       \<and> (\<forall>s k. rescaled_coord (dtype kp) s k =
              add_elem (with_float32 (with_float (dtype kp))) (- (1 / 2))
                (mul_elem (with_float32 (with_float (dtype kp))) s
                   (add_elem (with_float (dtype kp)) (1 / 2) k)))
       \<and> (\<forall>s k. f32 k = k \<and> \<bar>k\<bar> \<le> 2 ^ 64 \<and> \<bar>s\<bar> \<le> 2 ^ 32 \<longrightarrow>
              rescaled_coord Float32 (Num s) (Num k)
                = Num (f32 (f32 (f32 (k + 1 / 2) * s) - 1 / 2)))
       \<and> (\<forall>a. dtype (astype Float16 a) = Float16 \<and> shape (astype Float16 a) = shape a
              \<and> vals (astype Float16 a) = map (fl Float16) (vals a))
       \<and> scales_of d =
           (fl Float32 (size_ratio (fst (original_size d)) (img_w (d_image d))),
            fl Float32 (size_ratio (snd (original_size d)) (img_h (d_image d))))
       \<and> (0 < img_w (d_image d) \<and> 0 < img_h (d_image d)
            \<and> img_w (d_image d) < 2 ^ 53 \<and> img_h (d_image d) < 2 ^ 53
            \<and> fst (original_size d) < 2 ^ 53 \<and> snd (original_size d) < 2 ^ 53 \<longrightarrow>
          scales_of d =
            (Num (f32 (f64 (of_nat (fst (original_size d)) / of_nat (img_w (d_image d))))),
             Num (f32 (f64 (of_nat (snd (original_size d)) / of_nat (img_h (d_image d)))))))
       \<and> image_size_array d =
           \<lparr>dtype = Int64, shape = [2],
            vals = [Num (of_nat (fst (original_size d))), Num (of_nat (snd (original_size d)))]\<rparr>
       \<and> (\<forall>as_half q0 q. postprocess as_half d q0 = Inr q \<longrightarrow>
             q ''image_size'' = Some (image_size_array d))
       \<and> (\<forall>as_half q0. q0 ''keypoints'' = None \<longrightarrow>
             postprocess as_half d q0
               = Inr (downcast as_half (q0(''image_size'' \<mapsto> image_size_array d))))
       \<and> (\<forall>as_half q0 a. q0 ''keypoints'' = Some a \<and> shape a \<noteq> []
               \<and> last (shape a) \<noteq> 1 \<and> last (shape a) \<noteq> 2 \<longrightarrow>
             postprocess as_half d q0 = Inl BroadcastError)
       \<and> (\<forall>fs ds name h w. load_image fs ds name = Inr d
             \<and> read_image fs (ds_root ds) name (grayscale (ds_conf ds)) = Some (h, w)
             \<longrightarrow> original_size d = (w, h))"
proof (intro conjI allI impI)
  let ?kp' = "\<lparr>dtype = with_float32 (with_float (dtype kp)),
             shape = (if length (shape kp) = 1 then [1, 2] else shape kp),
             vals = per_axis (rescaled_coord (dtype kp) (fst (scales_of d)))
                      (rescaled_coord (dtype kp) (snd (scales_of d))) (vals kp)\<rparr>"
  have k1: "(p0(''image_size'' \<mapsto> image_size_array d)) ''keypoints'' = Some kp"
    using kp(1) by simp
  have pp: "postprocess as_half d p0
      = Inr (downcast as_half (p0(''image_size'' \<mapsto> image_size_array d, ''keypoints'' \<mapsto> ?kp')))"
    for as_half
    unfolding postprocess_def
      rescale_points[where p = "p0(''image_size'' \<mapsto> image_size_array d)", OF k1 kp(2,3)]
    by simp
  have vs: "\<forall>i<length (vals kp).
                vals ?kp' ! i = rescaled_coord (dtype kp)
                  (if even i then fst (scales_of d) else snd (scales_of d)) (vals kp ! i)"
    by (simp add: nth_per_axis)
  have dc: "downcast as_half
                  (p0(''image_size'' \<mapsto> image_size_array d, ''keypoints'' \<mapsto> ?kp')) ''keypoints''
                = Some (if as_half \<and> dtype ?kp' = Float32 then astype Float16 ?kp' else ?kp')"
    for as_half
    by (simp add: downcast_def half_field_def)
  have "(\<forall>as_half. postprocess as_half d p0
                     = Inr (downcast as_half
                         (p0(''image_size'' \<mapsto> image_size_array d, ''keypoints'' \<mapsto> ?kp'))))
          \<and> dtype ?kp' = with_float32 (with_float (dtype kp))
          \<and> shape ?kp' = (if length (shape kp) = 1 then [1, 2] else shape kp)
          \<and> length (vals ?kp') = length (vals kp)
          \<and> (\<forall>i<length (vals kp).
                vals ?kp' ! i = rescaled_coord (dtype kp)
                  (if even i then fst (scales_of d) else snd (scales_of d)) (vals kp ! i))
          \<and> (\<forall>as_half.
                downcast as_half
                  (p0(''image_size'' \<mapsto> image_size_array d, ''keypoints'' \<mapsto> ?kp')) ''keypoints''
                = Some (if as_half \<and> dtype ?kp' = Float32 then astype Float16 ?kp' else ?kp'))"
    using pp vs dc by simp
  then show "\<exists>kp'. (\<forall>as_half. postprocess as_half d p0
                     = Inr (downcast as_half
                         (p0(''image_size'' \<mapsto> image_size_array d, ''keypoints'' \<mapsto> kp'))))
          \<and> dtype kp' = with_float32 (with_float (dtype kp))
          \<and> shape kp' = (if length (shape kp) = 1 then [1, 2] else shape kp)
          \<and> length (vals kp') = length (vals kp)
          \<and> (\<forall>i<length (vals kp).
                vals kp' ! i = rescaled_coord (dtype kp)
                  (if even i then fst (scales_of d) else snd (scales_of d)) (vals kp ! i))
          \<and> (\<forall>as_half.
                downcast as_half
                  (p0(''image_size'' \<mapsto> image_size_array d, ''keypoints'' \<mapsto> kp')) ''keypoints''
                = Some (if as_half \<and> dtype kp' = Float32 then astype Float16 kp' else kp'))"
    by (rule exI[of _ ?kp'])
next
  fix s k
  show "rescaled_coord (dtype kp) s k =
              add_elem (with_float32 (with_float (dtype kp))) (- (1 / 2))
                (mul_elem (with_float32 (with_float (dtype kp))) s
                   (add_elem (with_float (dtype kp)) (1 / 2) k))"
    by (simp add: rescaled_coord_def Let_def)
next
  fix s k :: rat
  assume "f32 k = k \<and> \<bar>k\<bar> \<le> 2 ^ 64 \<and> \<bar>s\<bar> \<le> 2 ^ 32"
  then show "rescaled_coord Float32 (Num s) (Num k)
                = Num (f32 (f32 (f32 (k + 1 / 2) * s) - 1 / 2))"
    by (intro rescaled_coord_f32) simp_all
next
  fix a :: ndarray
  show "dtype (astype Float16 a) = Float16" "shape (astype Float16 a) = shape a"
    "vals (astype Float16 a) = map (fl Float16) (vals a)"
    by (simp_all add: astype_def)
next
  show "scales_of d =
           (fl Float32 (size_ratio (fst (original_size d)) (img_w (d_image d))),
            fl Float32 (size_ratio (snd (original_size d)) (img_h (d_image d))))"
    by (simp add: scales_of_def)
  show "image_size_array d =
           \<lparr>dtype = Int64, shape = [2],
            vals = [Num (of_nat (fst (original_size d))), Num (of_nat (snd (original_size d)))]\<rparr>"
    by (simp add: image_size_array_def)
next
  assume b: "0 < img_w (d_image d) \<and> 0 < img_h (d_image d)
            \<and> img_w (d_image d) < 2 ^ 53 \<and> img_h (d_image d) < 2 ^ 53
            \<and> fst (original_size d) < 2 ^ 53 \<and> snd (original_size d) < 2 ^ 53"
  then show "scales_of d =
            (Num (f32 (f64 (of_nat (fst (original_size d)) / of_nat (img_w (d_image d))))),
             Num (f32 (f64 (of_nat (snd (original_size d)) / of_nat (img_h (d_image d))))))"
    unfolding scales_of_def by (simp only: size_ratio_finite(2))
next
  fix as_half q0 q assume "postprocess as_half d q0 = Inr q"
  then show "q ''image_size'' = Some (image_size_array d)" by (rule postprocess_image_size)
next
  fix as_half and q0 :: pred assume "q0 ''keypoints'' = None"
  then show "postprocess as_half d q0
               = Inr (downcast as_half (q0(''image_size'' \<mapsto> image_size_array d)))"
    by (simp add: postprocess_def rescale_keypoints_def)
next
  fix as_half and q0 :: pred and a
  assume "q0 ''keypoints'' = Some a \<and> shape a \<noteq> []
               \<and> last (shape a) \<noteq> 1 \<and> last (shape a) \<noteq> 2"
  then show "postprocess as_half d q0 = Inl BroadcastError"
    by (simp add: postprocess_def rescale_keypoints_def mul_scales_def add_scalar_def Let_def)
next
  fix fs ds name h w
  assume "load_image fs ds name = Inr d
             \<and> read_image fs (ds_root ds) name (grayscale (ds_conf ds)) = Some (h, w)"
  then show "original_size d = (w, h)" using load_image_original_size by blast
qed

theorem keypoints_rescaled_witness:
  "\<exists>kp'. postprocess False ex_data_b ex_pred
            = Inr (ex_pred(''image_size'' \<mapsto> image_size_array ex_data_b, ''keypoints'' \<mapsto> kp'))
        \<and> postprocess True ex_data_b ex_pred
            = Inr (downcast True
                (ex_pred(''image_size'' \<mapsto> image_size_array ex_data_b, ''keypoints'' \<mapsto> kp')))
        \<and> dtype kp' = Float32 \<and> shape kp' = [2, 2]
        \<and> vals kp' ! 0 = Num (101 / 8) \<and> vals kp' ! 1 = Num (201 / 8)
        \<and> vals kp' ! 2 = Num (301 / 8) \<and> vals kp' ! 3 = Num (81 / 8)"
proof -
  let ?kp = "\<lparr>dtype = Float32, shape = [2, 2], vals = [Num 10, Num 20, Num 30, Num 8]\<rparr>"
  have 1: "ex_pred ''keypoints'' = Some ?kp" by (simp add: ex_pred_def)
  have 2: "shape ?kp \<noteq> []" "last (shape ?kp) = 2" by simp_all
  have sc: "scales_of ex_data_b = (Num (5 / 4), Num (5 / 4))"
    unfolding ex_data_b_def by (rule ex_scales_b)
  have v: "rescaled_coord Float32 (Num (5 / 4)) (Num 10) = Num (101 / 8)"
    "rescaled_coord Float32 (Num (5 / 4)) (Num 20) = Num (201 / 8)"
    "rescaled_coord Float32 (Num (5 / 4)) (Num 30) = Num (301 / 8)"
    "rescaled_coord Float32 (Num (5 / 4)) (Num 8) = Num (81 / 8)"
    by code_simp+
  from keypoints_rescaled[where ?p0.0 = ex_pred and d = ex_data_b, OF 1 2, THEN conjunct1]
  obtain kp' where
    k: "\<forall>as_half. postprocess as_half ex_data_b ex_pred
            = Inr (downcast as_half
                (ex_pred(''image_size'' \<mapsto> image_size_array ex_data_b, ''keypoints'' \<mapsto> kp')))"
    and t: "dtype kp' = with_float32 (with_float (dtype ?kp))"
      "shape kp' = (if length (shape ?kp) = 1 then [1, 2] else shape ?kp)"
    and i: "\<forall>i<length (vals ?kp).
                vals kp' ! i = rescaled_coord (dtype ?kp)
                  (if even i then fst (scales_of ex_data_b) else snd (scales_of ex_data_b))
                  (vals ?kp ! i)"
    by blast
  from i[rule_format, of 0] i[rule_format, of 1] i[rule_format, of 2] i[rule_format, of 3]
  have "vals kp' ! 0 = Num (101 / 8) \<and> vals kp' ! 1 = Num (201 / 8)
        \<and> vals kp' ! 2 = Num (301 / 8) \<and> vals kp' ! 3 = Num (81 / 8)"
    by (simp add: sc v)
  moreover have "dtype kp' = Float32" "shape kp' = [2, 2]" using t by simp_all
  moreover have "postprocess False ex_data_b ex_pred
            = Inr (ex_pred(''image_size'' \<mapsto> image_size_array ex_data_b, ''keypoints'' \<mapsto> kp'))"
    using k[rule_format, of False] by (simp add: downcast_def)
  ultimately show ?thesis using k[rule_format, of True] by blast
qed

subsection \<open>C3: resize policy\<close>



subsection \<open>C4: skip-all short-circuit\<close>

text \<open>
  C4 (skip-all short-circuit). When every resolved name is already a key of the feature
  file, \<open>main\<close> returns the feature path, and the log of events is the one it started
  with: the backend was not loaded and no inference call was made, whatever
  \<open>dynamic_load\<close> would have done. The feature file is left as it was.
\<close>

theorem skip_all_short_circuit:
  assumes "ImageDataset_init fs image_dir (preprocessing conf) image_list = Inr ds"
    and "resolve_feature_path conf export_dir feature_path = Inr fp"
    and "set (names ds) \<subseteq> list_h5_names w fp"
  shows "\<exists>w'. main fs dynamic_load conf image_dir export_dir as_half image_list feature_path w
               = (w', Inr fp)
             \<and> events w' = events w \<and> h5_files w' = h5_files w"
  using assms(3) unfolding main_resolved[OF assms(1,2)]
  by (simp add: Let_def)

theorem skip_all_short_circuit_witness:
  "\<exists>w'. main ex_fs ex_load ex_conf [''images''] (Some [''out'']) False PathsNone None ex_done
           = (w', Inr [''out'', ''feats.h5''])
        \<and> events w' = [] \<and> h5_files w' = h5_files ex_done"
proof -
  have sub: "set (names ex_ds) \<subseteq> list_h5_names ex_done [''out'', ''feats.h5'']"
    by (simp add: ex_ds_def list_h5_names_def store_at_def ex_done_def group_names_def)
  show ?thesis
    using skip_all_short_circuit[OF ex_init ex_fp sub, of ex_load False]
    by (simp add: ex_done_def)
qed

subsection \<open>C5: shape of the resolved names\<close>

text \<open>
  C5 as stated fails on explicit lists: the in-memory sequence
  \<^verbatim>\<open>['b.png', Path('b.png')]\<close> resolves to the name \<^verbatim>\<open>b.png\<close> twice.
\<close>

theorem explicit_list_not_deduplicated:
  "ImageDataset_init ex_fs [''images''] (preprocessing ex_conf)
      (Entries [Str ''b.png'', PathObj [''b.png'']])
     = Inr (ex_ds\<lparr>names := [''b.png'', ''b.png'']\<rparr>)
   \<and> \<not> distinct (names (ex_ds\<lparr>names := [''b.png'', ''b.png'']\<rparr>))"
  using ex_init_dup by (simp add: ex_dup_def)

text \<open>
  C5, amended (shape of the resolved names). Glob discovery yields the POSIX strings of
  the matched paths without duplicates, sorted in the lexicographic order of their
  parts, and the result depends only on the set of matches, not on the order or the
  multiplicity in which the file system reports them. An explicit list is not
  deduplicated and not sorted: the names are the entries of the in-memory sequence
  (a string as it is, a \<^verbatim>\<open>Path\<close> as its POSIX string, where the root of an absolute path
  is followed by the other parts) or the lines of the list file, in the order given.
\<close>

theorem resolved_names_shape:
  assumes "\<forall>p\<in>set (glob_paths fs rootdir (globs (merge_conf default_conf c))). valid_rel_path p"
  shows "(ImageDataset_init fs rootdir c PathsNone = Inr ds \<longrightarrow>
            distinct (names ds)
          \<and> sorted (map split_slash (names ds))
          \<and> map split_slash (names ds)
              = sorted_list_of_set (set (glob_paths fs rootdir (globs (merge_conf default_conf c))))
          \<and> (set (glob_paths fs' rootdir (globs (merge_conf default_conf c)))
                = set (glob_paths fs rootdir (globs (merge_conf default_conf c))) \<longrightarrow>
              ImageDataset_init fs' rootdir c PathsNone = Inr ds))
       \<and> (ImageDataset_init fs rootdir c (Entries es) = Inr ds \<longrightarrow>
            names ds = map entry_name es)
       \<and> (\<forall>s. entry_name (Str s) = s)
       \<and> entry_name (PathObj []) = ''.''
       \<and> (\<forall>r p. r = ''/'' \<or> r = ''//'' \<longrightarrow> entry_name (PathObj (r # p)) = r @ join_posix p)
       \<and> (\<forall>p. valid_rel_path p \<longrightarrow> entry_name (PathObj p) = join_posix p)
       \<and> (parse_image_lists fs f = Inr ns \<longrightarrow>
            ImageDataset_init fs rootdir c (ListFile f) = Inr ds \<longrightarrow> names ds = ns)"
proof (intro conjI impI allI)
  let ?found = "glob_paths fs rootdir (globs (merge_conf default_conf c))"
  let ?ps = "sort (remdups ?found)"
  assume init: "ImageDataset_init fs rootdir c PathsNone = Inr ds"
  have nm: "names ds = map as_posix ?ps" by (rule init_glob_names[OF init])
  have valid: "\<forall>p\<in>set ?ps. valid_rel_path p" using assms by simp
  have unjoin: "map split_slash (names ds) = ?ps"
    unfolding nm map_map using valid by (intro map_idI) (simp add: split_as_posix)
  show "distinct (names ds)"
    unfolding nm using valid
    by (intro iffD2[OF distinct_map] conjI inj_on_subset[OF as_posix_inj]) auto
  show "sorted (map split_slash (names ds))" unfolding unjoin by simp
  show "map split_slash (names ds) = sorted_list_of_set (set ?found)"
    unfolding unjoin by (simp add: sorted_list_of_set_sort_remdups)
  show "ImageDataset_init fs' rootdir c PathsNone = Inr ds"
    if same: "set (glob_paths fs' rootdir (globs (merge_conf default_conf c))) = set ?found"
  proof -
    let ?found' = "glob_paths fs' rootdir (globs (merge_conf default_conf c))"
    from init have "?found \<noteq> []"
      by (auto simp: ImageDataset_init_def Let_def split: if_splits)
    with same have ne: "?found' \<noteq> []" by auto
    have "sort (remdups ?found') = ?ps" using same by (rule sort_remdups_set)
    with ne init show ?thesis
      by (auto simp: ImageDataset_init_def Let_def split: if_splits)
  qed
next
  assume "ImageDataset_init fs rootdir c (Entries es) = Inr ds"
  then show "names ds = map entry_name es" by (rule init_Entries_names)
next
  fix s show "entry_name (Str s) = s" by simp
next
  show "entry_name (PathObj []) = ''.''" by (simp add: as_posix_def)
next
  fix r p assume "r = ''/'' \<or> r = ''//''"
  then show "entry_name (PathObj (r # p)) = r @ join_posix p" by (auto simp: as_posix_def)
next
  fix p assume "valid_rel_path p"
  then show "entry_name (PathObj p) = join_posix p" by (simp add: as_posix_rel)
next
  assume "parse_image_lists fs f = Inr ns" "ImageDataset_init fs rootdir c (ListFile f) = Inr ds"
  then show "names ds = ns" by (rule init_ListFile_names)
qed

theorem resolved_names_shape_witness:
  "ImageDataset_init ex_fs2 [''images''] ex_prep PathsNone
     = Inr (ex_ds\<lparr>names := [''a/b.jpg'', ''a-b.jpg'']\<rparr>)
   \<and> distinct [''a/b.jpg'', ''a-b.jpg'']
   \<and> sorted (map split_slash [''a/b.jpg'', ''a-b.jpg''])
   \<and> entry_name (PathObj [''/'', ''tmp'', ''x.png'']) = ''/tmp/x.png''
   \<and> entry_name (PathObj [''a'', ''b.jpg'']) = ''a/b.jpg''"
proof -
  have found: "glob_paths ex_fs2 [''images''] (globs (merge_conf default_conf ex_prep))
      = [[''a-b.jpg''], [''a'', ''b.jpg''], [''a-b.jpg''], [''a'', ''b.jpg'']]"
    by (simp add: glob_paths_def ex_fs2_def merge_conf_def default_conf_def ex_prep_def)
  have valid: "\<forall>p\<in>set (glob_paths ex_fs2 [''images''] (globs (merge_conf default_conf ex_prep))).
      valid_rel_path p"
    unfolding found by (simp add: valid_rel_path_def valid_part_def)
  have srt: "sort (remdups [[''a-b.jpg''], [''a'', ''b.jpg''], [''a-b.jpg''], [''a'', ''b.jpg'']])
      = [[''a'', ''b.jpg''], [''a-b.jpg'']]"
    by code_simp
  have init: "ImageDataset_init ex_fs2 [''images''] ex_prep PathsNone
     = Inr (ex_ds\<lparr>names := [''a/b.jpg'', ''a-b.jpg'']\<rparr>)"
    unfolding ImageDataset_init_def Let_def found
    by (simp add: srt as_posix_def) (simp add: ex_ds_def merge_conf_def default_conf_def ex_prep_def)
  have v: "valid_rel_path [''a'', ''b.jpg'']" by (simp add: valid_rel_path_def valid_part_def)
  note th = resolved_names_shape[OF valid, of "ex_ds\<lparr>names := [''a/b.jpg'', ''a-b.jpg'']\<rparr>"]
  from th init have "distinct [''a/b.jpg'', ''a-b.jpg'']
      \<and> sorted (map split_slash [''a/b.jpg'', ''a-b.jpg''])" by simp
  moreover from th have "entry_name (PathObj (''/'' # [''tmp'', ''x.png'']))
      = ''/'' @ join_posix [''tmp'', ''x.png'']" by blast
  moreover from th v have "entry_name (PathObj [''a'', ''b.jpg'']) = join_posix [''a'', ''b.jpg'']"
    by blast
  ultimately show ?thesis using init by simp
qed

subsection \<open>C6: downcast\<close>

text \<open>
  C6 as stated fails for a float64 field: with half precision requested, a
  \<^verbatim>\<open>global_descriptor\<close> of dtype float64 is stored as float64.
\<close>

theorem float64_not_downcast:
  "postprocess True ex_plain_a ex_global
     = Inr (ex_global(''image_size'' \<mapsto> image_size_array ex_plain_a))
   \<and> map_option dtype ((ex_global(''image_size'' \<mapsto> image_size_array ex_plain_a))
        ''global_descriptor'') = Some Float64"
proof -
  have "downcast True (ex_global(''image_size'' \<mapsto> image_size_array ex_plain_a))
      = ex_global(''image_size'' \<mapsto> image_size_array ex_plain_a)"
    by (rule ext) (simp add: downcast_def ex_global_def half_field_def image_size_array_def)
  then have "postprocess True ex_plain_a ex_global
     = Inr (ex_global(''image_size'' \<mapsto> image_size_array ex_plain_a))"
    by (simp add: postprocess_def rescale_keypoints_def ex_global_def)
  then show ?thesis by (simp add: ex_global_def)
qed

text \<open>
  C6, amended (downcast). With half precision requested, every field of dtype float32
  is cast to float16 and every field of any other dtype, integer or float64, is left as
  it is; so no stored field is float32 and \<^verbatim>\<open>image_size\<close> stays the int64 array of the
  original size. The cast keeps the shape and rounds every finite value to float16; a
  value whose rounding is beyond 65504, the largest float16 number, becomes an infinity
  of its sign, and infinities and NaN are kept. Without half precision the downcast
  changes nothing, and the postprocessing leaves every field other than \<^verbatim>\<open>keypoints\<close>
  and \<^verbatim>\<open>image_size\<close> as the backend returned it.
\<close>

theorem downcast_float32_only:
  "downcast False p = p
   \<and> (\<forall>k. downcast True p k =
          (case p k of None \<Rightarrow> None
           | Some a \<Rightarrow> Some (if dtype a = Float32 then astype Float16 a else a)))
   \<and> (\<forall>a. dtype (astype Float16 a) = Float16 \<and> shape (astype Float16 a) = shape a
          \<and> vals (astype Float16 a) = map (fl Float16) (vals a))
   \<and> (\<forall>x. fl Float16 (Num x) =
          (if 65504 < f16 x then PosInf else if f16 x < - 65504 then NegInf else Num (f16 x)))
   \<and> (\<forall>x. \<bar>x\<bar> \<le> 2 ^ 14 \<longrightarrow> fl Float16 (Num x) = Num (f16 x))
   \<and> fl Float16 PosInf = PosInf \<and> fl Float16 NegInf = NegInf \<and> fl Float16 NaN = NaN
   \<and> (\<forall>k a. downcast True p k = Some a \<longrightarrow> dtype a \<noteq> Float32)
   \<and> (\<forall>q. postprocess True d p0 = Inr q \<longrightarrow>
          q ''image_size'' = Some (image_size_array d)
        \<and> dtype (image_size_array d) = Int64
        \<and> (\<forall>k a. q k = Some a \<longrightarrow> dtype a \<noteq> Float32)
        \<and> (\<forall>k a. k \<noteq> ''keypoints'' \<longrightarrow> k \<noteq> ''image_size'' \<longrightarrow> p0 k = Some a \<longrightarrow>
              q k = Some (if dtype a = Float32 then astype Float16 a else a)))
   \<and> (\<forall>q. postprocess False d p0 = Inr q \<longrightarrow>
          (\<forall>k. k \<noteq> ''keypoints'' \<longrightarrow> k \<noteq> ''image_size'' \<longrightarrow> q k = p0 k))"
proof (intro conjI allI impI)
  show "downcast False p = p" by (simp add: downcast_def)
next
  fix k
  show "downcast True p k =
          (case p k of None \<Rightarrow> None
           | Some a \<Rightarrow> Some (if dtype a = Float32 then astype Float16 a else a))"
    by (simp add: downcast_def half_field_def split: option.splits)
next
  fix a :: ndarray
  show "dtype (astype Float16 a) = Float16" "shape (astype Float16 a) = shape a"
    "vals (astype Float16 a) = map (fl Float16) (vals a)"
    by (simp_all add: astype_def)
next
  fix x
  show "fl Float16 (Num x) =
          (if 65504 < f16 x then PosInf else if f16 x < - 65504 then NegInf else Num (f16 x))"
    by (simp add: finite_or_inf_def)
next
  fix x :: rat assume "\<bar>x\<bar> \<le> 2 ^ 14"
  then show "fl Float16 (Num x) = Num (f16 x)" by (rule fl16_bound)
next
  show "fl Float16 PosInf = PosInf" "fl Float16 NegInf = NegInf" "fl Float16 NaN = NaN"
    by simp_all
next
  fix k a assume "downcast True p k = Some a"
  then obtain b where "p k = Some b" "a = half_field b"
    by (auto simp: downcast_def)
  then show "dtype a \<noteq> Float32" by (simp add: half_field_dtype)
next
  fix q assume q: "postprocess True d p0 = Inr q"
  then obtain p1 where
    r: "rescale_keypoints d (p0(''image_size'' \<mapsto> image_size_array d)) = Inr p1"
    and qd: "q = downcast True p1"
    by (auto simp: postprocess_def split: sum.splits)
  show "q ''image_size'' = Some (image_size_array d)" using q by (rule postprocess_image_size)
  show "dtype (image_size_array d) = Int64" by (simp add: image_size_array_def)
  show "dtype a \<noteq> Float32" if "q k = Some a" for k a
  proof -
    from that obtain b where "p1 k = Some b" "a = half_field b"
      by (auto simp: qd downcast_def)
    then show ?thesis by (simp add: half_field_dtype)
  qed
  show "q k = Some (if dtype a = Float32 then astype Float16 a else a)"
    if "k \<noteq> ''keypoints''" "k \<noteq> ''image_size''" "p0 k = Some a" for k a
  proof -
    have "p1 k = Some a" using rescale_keeps_other[OF r that(1)] that(2,3) by simp
    then show ?thesis by (simp add: qd downcast_def half_field_def)
  qed
next
  fix q k assume q: "postprocess False d p0 = Inr q"
    and k: "k \<noteq> ''keypoints''" "k \<noteq> ''image_size''"
  from q obtain p1 where
    r: "rescale_keypoints d (p0(''image_size'' \<mapsto> image_size_array d)) = Inr p1"
    and qd: "q = p1"
    by (auto simp: postprocess_def downcast_def split: sum.splits)
  show "q k = p0 k" using rescale_keeps_other[OF r k(1)] k(2) by (simp add: qd)
qed

theorem downcast_float32_only_witness:
  "map_option dtype (downcast True ex_stored ''keypoints'') = Some Float16
   \<and> map_option dtype (downcast True ex_stored ''scores'') = Some Float16
   \<and> map_option dtype (downcast True ex_stored ''image_size'') = Some Int64
   \<and> map_option vals (downcast True ex_stored ''image_size'') = Some [Num 50, Num 100]
   \<and> downcast False ex_stored = ex_stored
   \<and> fl Float16 (Num 70000) = PosInf
   \<and> fl Float16 (Num (2049 / 2)) = Num 1024"
proof -
  note th = downcast_float32_only[of ex_stored ex_plain_a ex_global]
  note f = th[THEN conjunct1]
  note k = th[THEN conjunct2, THEN conjunct1]
  note a = th[THEN conjunct2, THEN conjunct2, THEN conjunct1]
  note o = th[THEN conjunct2, THEN conjunct2, THEN conjunct2, THEN conjunct1]
  note b = th[THEN conjunct2, THEN conjunct2, THEN conjunct2, THEN conjunct2, THEN conjunct1]
  have v: "f16 70000 = 70016" "f16 (2049 / 2) = 1024" by code_simp+
  have "fl Float16 (Num 70000) = PosInf" using o[rule_format, of 70000] by (simp add: v)
  moreover have "fl Float16 (Num (2049 / 2)) = Num 1024"
    using b[rule_format, of "2049 / 2"] by (simp add: v)
  ultimately show ?thesis
    using k[rule_format, of "''keypoints''"] k[rule_format, of "''scores''"]
      k[rule_format, of "''image_size''"] a[rule_format, THEN conjunct1] f
    by (simp add: ex_stored_def del: fl.simps)
qed

subsection \<open>C7: round trip without resizing\<close>

text \<open>
  C7 as stated fails in float32: with the image not resized (scale 1), the float32
  number nearest to 0.1 comes back as \<open>838861 / 8388608\<close>, because \<open>0.1f + 0.5\<close> is
  rounded before \<open>0.5\<close> is subtracted again.
\<close>

theorem roundtrip_not_exact:
  "load_image ex_fs ex_ds_plain ''a.jpg'' = Inr ex_plain_a
   \<and> resize_max (ds_conf ex_ds_plain) = None
   \<and> scales_of ex_plain_a = (Num 1, Num 1)
   \<and> list_all (\<lambda>v. fl Float32 v = v) (vals ex_tenth)
   \<and> postprocess False ex_plain_a [''keypoints'' \<mapsto> ex_tenth]
        = Inr [''keypoints'' \<mapsto> ex_tenth, ''image_size'' \<mapsto> image_size_array ex_plain_a,
               ''keypoints'' \<mapsto> ex_tenth_out]
   \<and> ex_tenth_out \<noteq> ex_tenth"
proof -
  have l: "load_image ex_fs ex_ds_plain ''a.jpg'' = Inr ex_plain_a"
    by (simp add: load_image_def ex_fs_def ex_ds_plain_def ex_ds_def resize_image_def
        ex_plain_a_def)
  have r: "resize_max (ds_conf ex_ds_plain) = None" by (simp add: ex_ds_plain_def)
  have s: "scales_of ex_plain_a = (Num 1, Num 1)"
    by (rule scales_same) (simp_all add: ex_plain_a_def)
  have wf: "list_all (\<lambda>v. fl Float32 v = v) (vals ex_tenth)" by code_simp
  have a: "add_scalar (1 / 2) ex_tenth
      = \<lparr>dtype = Float32, shape = [2, 2],
         vals = [Num (5033165 / 8388608), Num (21 / 2), Num (7 / 2), Num (5033165 / 8388608)]\<rparr>"
    by code_simp
  have m: "mul_scales \<lparr>dtype = Float32, shape = [2, 2],
        vals = [Num (5033165 / 8388608), Num (21 / 2), Num (7 / 2), Num (5033165 / 8388608)]\<rparr>
        (Num 1, Num 1)
      = Inr \<lparr>dtype = Float32, shape = [2, 2],
          vals = [Num (5033165 / 8388608), Num (21 / 2), Num (7 / 2), Num (5033165 / 8388608)]\<rparr>"
    by code_simp
  have b: "add_scalar (- (1 / 2)) \<lparr>dtype = Float32, shape = [2, 2],
        vals = [Num (5033165 / 8388608), Num (21 / 2), Num (7 / 2), Num (5033165 / 8388608)]\<rparr>
      = ex_tenth_out"
    by code_simp
  have p: "postprocess False ex_plain_a [''keypoints'' \<mapsto> ex_tenth]
        = Inr [''keypoints'' \<mapsto> ex_tenth, ''image_size'' \<mapsto> image_size_array ex_plain_a,
               ''keypoints'' \<mapsto> ex_tenth_out]"
    by (simp add: postprocess_def rescale_keypoints_def s a m b downcast_def)
  have n: "ex_tenth_out \<noteq> ex_tenth" by (simp add: ex_tenth_out_def ex_tenth_def)
  from l r s wf p n show ?thesis by simp
qed

text \<open>
  C7, amended (round trip without resizing). When \<^verbatim>\<open>resize_max\<close> is unset the processed
  size is the original size and both scales are exactly 1; a float32 \<^verbatim>\<open>keypoints\<close> array
  of points (two dimensions or more, the last one 2) is then replaced by the array, of
  the same shape, of the float32 values of \<^verbatim>\<open>(k + 0.5) - 0.5\<close>, which is \<open>k\<close> itself for
  every coordinate \<open>k\<close> such that \<open>k\<close> and \<open>k + 0.5\<close> are float32 values, in particular
  for every integer coordinate of magnitude below \<open>2^22\<close>.
\<close>

theorem roundtrip_unresized:
  assumes d: "load_image fs ds name = Inr d" "resize_max (ds_conf ds) = None"
      "0 < fst (original_size d)" "0 < snd (original_size d)"
    and kp: "p0 ''keypoints'' = Some kp" "dtype kp = Float32"
      "2 \<le> length (shape kp)" "last (shape kp) = 2"
  shows "img_w (d_image d) = fst (original_size d) \<and> img_h (d_image d) = snd (original_size d)
       \<and> scales_of d = (Num 1, Num 1)
       \<and> postprocess False d p0
           = Inr (p0(''image_size'' \<mapsto> image_size_array d,
                     ''keypoints'' \<mapsto>
                       \<lparr>dtype = Float32, shape = shape kp,
                        vals = map (rescaled_coord Float32 (Num 1)) (vals kp)\<rparr>))
       \<and> (\<forall>v. rescaled_coord Float32 (Num 1) v
                = add_elem Float32 (- (1 / 2)) (fl Float32 (add_elem Float32 (1 / 2) v)))
       \<and> (\<forall>k. f32 k = k \<and> \<bar>k\<bar> \<le> 2 ^ 64 \<longrightarrow>
              rescaled_coord Float32 (Num 1) (Num k) = Num (f32 (f32 (k + 1 / 2) - 1 / 2)))
       \<and> ((\<forall>v\<in>set (vals kp). fl Float32 v = v
                \<and> fl Float32 (add_const (1 / 2) v) = add_const (1 / 2) v) \<longrightarrow>
            postprocess False d p0
              = Inr (p0(''image_size'' \<mapsto> image_size_array d, ''keypoints'' \<mapsto> kp)))
       \<and> ((\<forall>v\<in>set (vals kp). \<exists>k. v = Num (of_int k) \<and> \<bar>k\<bar> < 2 ^ 22) \<longrightarrow>
            postprocess False d p0
              = Inr (p0(''image_size'' \<mapsto> image_size_array d, ''keypoints'' \<mapsto> kp)))"
proof -
  note same = load_image_unresized[OF d(1,2)]
  have s: "scales_of d = (Num 1, Num 1)" using same d(3,4) by (rule scales_same)
  have k1: "(p0(''image_size'' \<mapsto> image_size_array d)) ''keypoints'' = Some kp"
    using kp(1) by simp
  have sh: "shape kp \<noteq> []" "length (shape kp) \<noteq> 1" using kp(3) by auto
  have pp: "postprocess False d p0
           = Inr (p0(''image_size'' \<mapsto> image_size_array d,
                     ''keypoints'' \<mapsto>
                       \<lparr>dtype = Float32, shape = shape kp,
                        vals = map (rescaled_coord Float32 (Num 1)) (vals kp)\<rparr>))"
    unfolding postprocess_def
      rescale_points[where p = "p0(''image_size'' \<mapsto> image_size_array d)", OF k1 sh(1) kp(4)]
    using sh(2) kp(2) by (simp add: downcast_def s per_axis_same)
  have form: "rescaled_coord Float32 (Num 1) v
                = add_elem Float32 (- (1 / 2)) (fl Float32 (add_elem Float32 (1 / 2) v))" for v
    by (simp add: rescaled_coord_def del: fl.simps)
  have fin: "rescaled_coord Float32 (Num 1) (Num k) = Num (f32 (f32 (k + 1 / 2) - 1 / 2))"
    if "f32 k = k \<and> \<bar>k\<bar> \<le> 2 ^ 64" for k
    using rescaled_coord_f32[of k 1] that by simp
  have unchanged: "postprocess False d p0
              = Inr (p0(''image_size'' \<mapsto> image_size_array d, ''keypoints'' \<mapsto> kp))"
    if h: "\<forall>v\<in>set (vals kp). fl Float32 v = v
                \<and> fl Float32 (add_const (1 / 2) v) = add_const (1 / 2) v"
  proof -
    have "map (rescaled_coord Float32 (Num 1)) (vals kp) = vals kp"
      using h by (intro map_idI rescaled_coord_one) simp_all
    then have "\<lparr>dtype = Float32, shape = shape kp,
        vals = map (rescaled_coord Float32 (Num 1)) (vals kp)\<rparr> = kp"
      using kp(2) by simp
    then show ?thesis using pp by simp
  qed
  have ints: "postprocess False d p0
              = Inr (p0(''image_size'' \<mapsto> image_size_array d, ''keypoints'' \<mapsto> kp))"
    if h: "\<forall>v\<in>set (vals kp). \<exists>k. v = Num (of_int k) \<and> \<bar>k\<bar> < 2 ^ 22"
  proof (rule unchanged)
    show "\<forall>v\<in>set (vals kp). fl Float32 v = v
                \<and> fl Float32 (add_const (1 / 2) v) = add_const (1 / 2) v"
    proof
      fix v assume "v \<in> set (vals kp)"
      with h obtain k where k: "v = Num (of_int k)" "\<bar>k\<bar> < 2 ^ 22" by blast
      show "fl Float32 v = v \<and> fl Float32 (add_const (1 / 2) v) = add_const (1 / 2) v"
        unfolding k(1) using fl32_int_half[OF k(2)] by (simp del: fl.simps)
    qed
  qed
  show ?thesis using same s pp form fin unchanged ints by blast
qed

theorem roundtrip_unresized_witness:
  "postprocess False ex_plain_a ex_pred
     = Inr (ex_pred(''image_size'' \<mapsto> image_size_array ex_plain_a))"
proof -
  let ?kp = "\<lparr>dtype = Float32, shape = [2, 2], vals = [Num 10, Num 20, Num 30, Num 8]\<rparr>"
  have l: "load_image ex_fs ex_ds_plain ''a.jpg'' = Inr ex_plain_a"
    by (simp add: load_image_def ex_fs_def ex_ds_plain_def ex_ds_def resize_image_def
        ex_plain_a_def)
  have r: "resize_max (ds_conf ex_ds_plain) = None" by (simp add: ex_ds_plain_def)
  have o: "0 < fst (original_size ex_plain_a)" "0 < snd (original_size ex_plain_a)"
    by (simp_all add: ex_plain_a_def)
  have 1: "ex_pred ''keypoints'' = Some ?kp" by (simp add: ex_pred_def)
  have 2: "dtype ?kp = Float32" "2 \<le> length (shape ?kp)" "last (shape ?kp) = 2"
    by simp_all
  have "\<exists>k. Num 10 = Num (rat_of_int k) \<and> \<bar>k\<bar> < 2 ^ 22"
    "\<exists>k. Num 20 = Num (rat_of_int k) \<and> \<bar>k\<bar> < 2 ^ 22"
    "\<exists>k. Num 30 = Num (rat_of_int k) \<and> \<bar>k\<bar> < 2 ^ 22"
    "\<exists>k. Num 8 = Num (rat_of_int k) \<and> \<bar>k\<bar> < 2 ^ 22"
    by (rule exI[of _ 10], simp, rule exI[of _ 20], simp, rule exI[of _ 30], simp,
        rule exI[of _ 8], simp)
  then have 3: "\<forall>v\<in>set (vals ?kp). \<exists>k. v = Num (of_int k) \<and> \<bar>k\<bar> < 2 ^ 22" by simp
  from roundtrip_unresized[where ?p0.0 = ex_pred, OF l r o 1 2] 3
  have "postprocess False ex_plain_a ex_pred
     = Inr (ex_pred(''image_size'' \<mapsto> image_size_array ex_plain_a, ''keypoints'' \<mapsto> ?kp))"
    by blast
  moreover have "ex_pred(''image_size'' \<mapsto> image_size_array ex_plain_a, ''keypoints'' \<mapsto> ?kp)
      = ex_pred(''image_size'' \<mapsto> image_size_array ex_plain_a)"
    by (rule ext) (simp add: ex_pred_def)
  ultimately show ?thesis by simp
qed

subsection \<open>C8: path resolution fails fast\<close>

text \<open>
  C8 (path resolution fails fast). Glob discovery that matches nothing, an explicit
  list (in memory or from a list file) with a name that does not exist under the root,
  and a paths argument of an unknown kind each make \<open>main\<close> fail with the error of
  \<^verbatim>\<open>ImageDataset.__init__\<close>, in the state it started in: no directory was made, the
  log has no event (the backend was not loaded, nothing was inferred) and the feature
  file is untouched. For a missing name the error names the first one.
\<close>

theorem path_resolution_fails_fast:
  "(glob_paths fs image_dir (globs (merge_conf default_conf (preprocessing conf))) = [] \<longrightarrow>
      main fs dynamic_load conf image_dir export_dir as_half PathsNone feature_path w
        = (w, Inl NoImageFound))
   \<and> ((\<exists>n\<in>set (map entry_name es). \<not> exists_in fs image_dir n) \<longrightarrow>
        (\<exists>m\<in>set (map entry_name es). \<not> exists_in fs image_dir m
           \<and> main fs dynamic_load conf image_dir export_dir as_half (Entries es) feature_path w
               = (w, Inl (ImageMissing m))))
   \<and> (parse_image_lists fs f = Inr ns \<and> (\<exists>n\<in>set ns. \<not> exists_in fs image_dir n) \<longrightarrow>
        (\<exists>m\<in>set ns. \<not> exists_in fs image_dir m
           \<and> main fs dynamic_load conf image_dir export_dir as_half (ListFile f) feature_path w
               = (w, Inl (ImageMissing m))))
   \<and> main fs dynamic_load conf image_dir export_dir as_half Unrecognised feature_path w
        = (w, Inl UnknownPathFormat)"
proof (intro conjI impI)
  assume "glob_paths fs image_dir (globs (merge_conf default_conf (preprocessing conf))) = []"
  then have "ImageDataset_init fs image_dir (preprocessing conf) PathsNone = Inl NoImageFound"
    by (simp add: ImageDataset_init_def Let_def)
  then show "main fs dynamic_load conf image_dir export_dir as_half PathsNone feature_path w
        = (w, Inl NoImageFound)" by (rule main_init_error)
next
  assume "\<exists>n\<in>set (map entry_name es). \<not> exists_in fs image_dir n"
  then obtain m where m: "first_missing fs image_dir (map entry_name es) = Some m"
    using first_missing_ex by blast
  then have "ImageDataset_init fs image_dir (preprocessing conf) (Entries es)
      = Inl (ImageMissing m)"
    by (simp add: ImageDataset_init_def checked_names_def Let_def)
  then have "main fs dynamic_load conf image_dir export_dir as_half (Entries es) feature_path w
               = (w, Inl (ImageMissing m))" by (rule main_init_error)
  with first_missing_Some[OF m]
  show "\<exists>m\<in>set (map entry_name es). \<not> exists_in fs image_dir m
           \<and> main fs dynamic_load conf image_dir export_dir as_half (Entries es) feature_path w
               = (w, Inl (ImageMissing m))" by blast
next
  assume a: "parse_image_lists fs f = Inr ns \<and> (\<exists>n\<in>set ns. \<not> exists_in fs image_dir n)"
  then obtain m where m: "first_missing fs image_dir ns = Some m"
    using first_missing_ex by blast
  with a have "ImageDataset_init fs image_dir (preprocessing conf) (ListFile f)
      = Inl (ImageMissing m)"
    by (simp add: ImageDataset_init_def checked_names_def Let_def)
  then have "main fs dynamic_load conf image_dir export_dir as_half (ListFile f) feature_path w
               = (w, Inl (ImageMissing m))" by (rule main_init_error)
  with first_missing_Some[OF m]
  show "\<exists>m\<in>set ns. \<not> exists_in fs image_dir m
           \<and> main fs dynamic_load conf image_dir export_dir as_half (ListFile f) feature_path w
               = (w, Inl (ImageMissing m))" by blast
next
  have "ImageDataset_init fs image_dir (preprocessing conf) Unrecognised = Inl UnknownPathFormat"
    by (simp add: ImageDataset_init_def Let_def)
  then show "main fs dynamic_load conf image_dir export_dir as_half Unrecognised feature_path w
        = (w, Inl UnknownPathFormat)" by (rule main_init_error)
qed

theorem path_resolution_fails_fast_witness:
  "main ex_fs ex_load ex_conf [''images''] (Some [''out'']) False
       (Entries [Str ''a.jpg'', Str ''c.jpg'']) None ex_world
     = (ex_world, Inl (ImageMissing ''c.jpg''))
   \<and> main (ex_fs\<lparr>glob := \<lambda>r pat. []\<rparr>) ex_load ex_conf [''images''] (Some [''out'']) False
       PathsNone None ex_world
     = (ex_world, Inl NoImageFound)"
proof -
  have no: "glob_paths (ex_fs\<lparr>glob := \<lambda>r pat. []\<rparr>) [''images'']
      (globs (merge_conf default_conf (preprocessing ex_conf))) = []"
    by (simp add: glob_paths_def)
  have miss: "\<exists>n\<in>set (map entry_name [Str ''a.jpg'', Str ''c.jpg'']).
      \<not> exists_in ex_fs [''images''] n"
    by (simp add: ex_fs_def)
  from path_resolution_fails_fast[of "ex_fs\<lparr>glob := \<lambda>r pat. []\<rparr>" "[''images'']" ex_conf ex_load
      "Some [''out'']" False None ex_world] no
  have 1: "main (ex_fs\<lparr>glob := \<lambda>r pat. []\<rparr>) ex_load ex_conf [''images''] (Some [''out'']) False
       PathsNone None ex_world = (ex_world, Inl NoImageFound)" by blast
  from path_resolution_fails_fast[of ex_fs "[''images'']" ex_conf ex_load
      "Some [''out'']" False None ex_world "[Str ''a.jpg'', Str ''c.jpg'']"] miss
  have "\<exists>m\<in>set (map entry_name [Str ''a.jpg'', Str ''c.jpg'']). \<not> exists_in ex_fs [''images''] m
      \<and> main ex_fs ex_load ex_conf [''images''] (Some [''out'']) False
       (Entries [Str ''a.jpg'', Str ''c.jpg'']) None ex_world = (ex_world, Inl (ImageMissing m))"
    by blast
  then have 2: "main ex_fs ex_load ex_conf [''images''] (Some [''out'']) False
       (Entries [Str ''a.jpg'', Str ''c.jpg'']) None ex_world
     = (ex_world, Inl (ImageMissing ''c.jpg''))"
    by (auto simp: ex_fs_def)
  from 1 2 show ?thesis by simp
qed

subsection \<open>C9: duplicate names in an explicit list\<close>



subsection \<open>C10: export directory\<close>

text \<open>
  C10 (export directory). After every run that resolved its names and its feature path,
  the parent directory of the feature path and its ancestors exist, whatever the
  outcome. A run that skips all extraction changes nothing else: its final state is the
  initial one after \<open>mkdir\<close>. A run that returns, returns the resolved feature path,
  in the all-skipped case and in the full-processing case alike; and the run does
  return it when every image loads, the names that are not stored get a result and
  their group paths are free in the file.
\<close>

theorem export_dir_created:
  assumes init: "ImageDataset_init fs image_dir (preprocessing conf) image_list = Inr ds"
    and fp: "resolve_feature_path conf export_dir feature_path = Inr fp"
    and run: "main fs dynamic_load conf image_dir export_dir as_half image_list feature_path w
                = (w', r)"
  shows "parent fp \<in> dirs w' \<and> set (prefixes (parent fp)) \<subseteq> dirs w' \<and> dirs w \<subseteq> dirs w'
       \<and> (set (names ds) \<subseteq> list_h5_names w fp \<longrightarrow>
             w' = mkdir_parents (parent fp) w \<and> r = Inr fp)
       \<and> (\<forall>p. r = Inr p \<longrightarrow> p = fp)
       \<and> (\<forall>model. dynamic_load (model_name conf) = Inr model \<longrightarrow>
             extractable fs ds model as_half (store_at w fp) (names ds) \<longrightarrow> r = Inr fp)"
proof (intro conjI allI impI)
  show sub: "set (prefixes (parent fp)) \<subseteq> dirs w'"
    using main_inv(4)[OF run init fp] by simp
  then show "parent fp \<in> dirs w'" by auto
  show "dirs w \<subseteq> dirs w'" by (rule main_inv(1)[OF run])
next
  assume "set (names ds) \<subseteq> list_h5_names w fp"
  then have "main fs dynamic_load conf image_dir export_dir as_half image_list feature_path w
      = (mkdir_parents (parent fp) w, Inr fp)"
    unfolding main_resolved[OF init fp] by (simp add: Let_def)
  with run show "w' = mkdir_parents (parent fp) w" "r = Inr fp" by simp_all
next
  fix p assume "r = Inr p"
  then show "p = fp" using main_inv(4)[OF run init fp] by simp
next
  fix model
  assume load: "dynamic_load (model_name conf) = Inr model"
    and ok: "extractable fs ds model as_half (store_at w fp) (names ds)"
  from main_ok[where dynamic_load = dynamic_load, OF init fp load ok] run
  show "r = Inr fp" by auto
qed

theorem export_dir_created_witness:
  "\<exists>w'. main ex_fs ex_load ex_conf [''images''] (Some [''out'']) False PathsNone None ex_world
           = (w', Inr [''out'', ''feats.h5''])
        \<and> [''out''] \<notin> dirs ex_world \<and> [''out''] \<in> dirs w'"
proof -
  obtain w' r where run:
    "main ex_fs ex_load ex_conf [''images''] (Some [''out'']) False PathsNone None ex_world = (w', r)"
    by (cases "main ex_fs ex_load ex_conf [''images''] (Some [''out'']) False PathsNone None ex_world")
  have load: "ex_load (model_name ex_conf) = Inr ex_model" by (simp add: ex_load_def)
  note th = export_dir_created[OF ex_init ex_fp run]
  from th load ex_extractable_all have r: "r = Inr [''out'', ''feats.h5'']" by blast
  from th have "parent [''out'', ''feats.h5''] \<in> dirs w'" by blast
  then have "[''out''] \<in> dirs w'" by (simp add: parent_def)
  moreover have "[''out''] \<notin> dirs ex_world" by (simp add: ex_world_def)
  ultimately show ?thesis using run r by simp
qed

end
